theory Spec2Isabelle
  imports Complex_Main "HOL-Library.Sublist" "HOL-Library.Multiset"
begin

section \<open>The JavaScript runtime, as far as the dashboard uses it\<close>

text \<open>
  Strings are ASCII strings. \<open>String.prototype.toLowerCase\<close> maps the letters
  \<open>A\<close> to \<open>Z\<close> to \<open>a\<close> to \<open>z\<close> and leaves every
  other character alone; text beyond ASCII is outside this model, and what is proved of
  case folding is stated for strings of codes below 128.
\<close>

definition toLowerChar :: "char \<Rightarrow> char" where
  "toLowerChar c =
     (case map_of (zip ''ABCDEFGHIJKLMNOPQRSTUVWXYZ'' ''abcdefghijklmnopqrstuvwxyz'') c of
        Some l \<Rightarrow> l
      | None \<Rightarrow> c)"

definition toLowerCase :: "string \<Rightarrow> string" where
  "toLowerCase s = map toLowerChar s"

text \<open>
  \<open>s.includes(t)\<close>: does \<open>t\<close> occur in \<open>s\<close> at some position?
  The scan tries every start position from the left.
\<close>

fun includes_js :: "string \<Rightarrow> string \<Rightarrow> bool" where
  "includes_js [] t = (t = [])"
| "includes_js (c # s) t = (prefix t (c # s) \<or> includes_js s t)"

text \<open>
  \<open>Array.prototype.slice(start, finish)\<close> on integers: a negative index counts
  from the end, both indices are clamped to the length, and an empty range gives the
  empty array.
\<close>

definition slice :: "'a list \<Rightarrow> int \<Rightarrow> int \<Rightarrow> 'a list" where
  "slice xs start finish =
     (let len = int (length xs);
          k = (if start < 0 then max (len + start) 0 else min start len);
          final = (if finish < 0 then max (len + finish) 0 else min finish len)
      in take (nat (final - k)) (drop (nat k) xs))"

text \<open>
  A JavaScript number that may be \<open>NaN\<close>: \<open>None\<close> is \<open>NaN\<close>.
  Subtraction gives \<open>NaN\<close> as soon as one operand is \<open>NaN\<close>.
\<close>

type_synonym num = "int option"

fun sub_num :: "num \<Rightarrow> num \<Rightarrow> num" where
  "sub_num (Some a) (Some b) = Some (a - b)"
| "sub_num _ _ = None"

text \<open>
  \<open>Array.prototype.sort(comparator)\<close>. ECMAScript reads a comparator result of
  \<open>NaN\<close> as \<open>+0\<close> and requires the sort to be stable. For a consistent
  comparator the stable sorted order is unique, and insertion from the right computes it:
  an element moves to the right only past elements it compares strictly greater than.
  For an inconsistent comparator (one that returns \<open>NaN\<close> for an invalid date, say)
  ECMAScript leaves the order to the engine, and the order of \<open>sort_js\<close> is then one
  order among those an engine may give: what is proved of the order of a sorted list is
  stated for inputs on which the comparator is consistent.
\<close>

definition sortCompare :: "('a \<Rightarrow> 'a \<Rightarrow> num) \<Rightarrow> 'a \<Rightarrow> 'a \<Rightarrow> int" where
  "sortCompare comparator x y = (case comparator x y of None \<Rightarrow> 0 | Some v \<Rightarrow> v)"

fun insert_sorted :: "('a \<Rightarrow> 'a \<Rightarrow> num) \<Rightarrow> 'a \<Rightarrow> 'a list \<Rightarrow> 'a list" where
  "insert_sorted comparator x [] = [x]"
| "insert_sorted comparator x (y # ys) =
     (if sortCompare comparator x y \<le> 0 then x # y # ys
      else y # insert_sorted comparator x ys)"

definition sort_js :: "('a \<Rightarrow> 'a \<Rightarrow> num) \<Rightarrow> 'a list \<Rightarrow> 'a list" where
  "sort_js comparator xs = foldr (insert_sorted comparator) xs []"

text \<open>
  The built-ins whose results the pages depend on, and the imported fixture, are
  parameters of the model:
  \<^item> \<open>JSON_parse\<close> is \<open>JSON.parse\<close> followed by the destructuring
    \<open>const { data } = ...\<close>; \<open>None\<close> is a thrown \<open>SyntaxError\<close>.
    A text that parses to JSON of another shape than a cache entry is not modelled.
  \<^item> \<open>JSON_stringify\<close> is \<open>JSON.stringify\<close> on a cache entry.
  \<^item> \<open>getTime\<close> is \<open>new Date(s).getTime()\<close>, in epoch milliseconds;
    \<open>None\<close> is \<open>NaN\<close> (an invalid date).
  \<^item> \<open>localeCompare\<close> is \<open>a.localeCompare(b)\<close>.
  \<^item> \<open>fixture\<close> is the imported JSON file of the page
    (\<open>certificatesData\<close>, \<open>sshKeysData\<close>, \<open>codeSigningData\<close>,
    \<open>auditLogsData\<close>); the files are not part of the sources at hand.
\<close>

record 'd cache_entry =
  data :: 'd
  timestamp :: int

record 'r runtime =
  JSON_parse :: "string \<Rightarrow> 'r list cache_entry option"
  JSON_stringify :: "'r list cache_entry \<Rightarrow> string"
  getTime :: "string \<Rightarrow> num"
  localeCompare :: "string \<Rightarrow> string \<Rightarrow> int"
  fixture :: "'r list"


section \<open>Asset records\<close>

text \<open>
  The four interfaces of the pages. Field names are the source's, with a prefix where
  two interfaces share a name (\<open>id\<close>, \<open>algorithm\<close>, \<open>createdAt\<close>,
  \<open>lastUsed\<close>, \<open>timestamp\<close>).
\<close>

datatype cert_status = active | expired | expiring_soon

record certificate =
  cert_id :: string
  name :: string
  domain :: string
  issuer :: string
  status :: cert_status
  expiryDate :: string
  commonName :: string
  serialNumber :: string
  cert_algorithm :: string
  cert_createdAt :: string

datatype trust_level = high | medium | low

record sshkey =
  key_id :: string
  keyOwner :: string
  fingerprint :: string
  lastUsed :: string
  trustLevel :: trust_level
  key_algorithm :: string
  key_createdAt :: string
  associatedServers :: "string list"

datatype protection_level = HSM | Soft

record codesigningkey =
  csk_id :: string
  keyAlias :: string
  description :: string
  csk_algorithm :: string
  protectionLevel :: protection_level
  csk_createdAt :: string
  csk_lastUsed :: string
  rotationPolicy :: string
  environment :: string
  owner :: string

record auditlog =
  log_id :: string
  log_timestamp :: string
  actor :: string
  email :: string
  actionType :: string
  targetResource :: string
  resourcePath :: string
  metadata :: string


section \<open>Cache store and dataset loader\<close>

text \<open>
  The state a page's \<open>loadData\<close> touches: the page's dataset
  (\<open>certificates\<close>, \<open>keys\<close> or \<open>logs\<close>), its two flags, the
  context's in-memory mirror \<open>cachedData\<close>, and \<open>localStorage\<close>.
\<close>

record 'r loader =
  dataset :: "'r list"
  loading :: bool
  error :: bool
  cachedData :: "string \<rightharpoonup> 'r list"
  localStorage :: "string \<rightharpoonup> string"

text \<open>
  \<open>setCachedData(key, data)\<close> of the dashboard context, at time \<open>now\<close>, when
  \<open>localStorage.setItem\<close> stores the value.
\<close>

definition setCachedData ::
  "'r runtime \<Rightarrow> int \<Rightarrow> string \<Rightarrow> 'r list \<Rightarrow> ('r, 'z) loader_scheme \<Rightarrow> ('r, 'z) loader_scheme" where
  "setCachedData rt now key d s =
     s\<lparr>cachedData := (cachedData s)(key \<mapsto> d),
       localStorage := (localStorage s)(''cache_'' @ key \<mapsto>
          JSON_stringify rt \<lparr>data = d, timestamp = now\<rparr>)\<rparr>"

text \<open>
  The read at the head of \<open>loadData\<close>:
  \<open>const cached = localStorage.getItem('cache_' + key); if (cached) { ... JSON.parse(cached) }\<close>.
  A missing key gives \<open>null\<close> and the empty string is falsy: both skip the block.
\<close>

datatype 'd cache_read = Absent | Malformed | Hit "'d cache_entry"

definition readCache :: "'r runtime \<Rightarrow> string \<Rightarrow> ('r, 'z) loader_scheme \<Rightarrow> 'r list cache_read" where
  "readCache rt key s =
     (case localStorage s (''cache_'' @ key) of
        None \<Rightarrow> Absent
      | Some cached \<Rightarrow>
          if cached = [] then Absent
          else (case JSON_parse rt cached of None \<Rightarrow> Malformed | Some e \<Rightarrow> Hit e))"

text \<open>
  \<open>loadData\<close> is one \<open>try\<close> block with one \<open>catch\<close>. The block
  has two parts, before and after the \<open>await\<close>: the cache preview, and the
  publication of the fixture. Each part returns \<open>Inr\<close> of the state when it
  completes and \<open>Inl\<close> of the state at the throw when it throws. The awaited promise
  is a timer, which always resolves: the \<open>await\<close> is the point where other events of
  the page run while the load is in flight, and nothing more.

  After the \<open>await\<close> the one call that can throw is \<open>localStorage.setItem\<close>
  inside \<open>setCachedData\<close>, when the storage is full or disabled. Whether the write of
  a load is stored or throws is a parameter of the load. By the time of the throw the
  setters of the dataset and of the in-memory mirror have been called.
\<close>

datatype storage_write = Stored | QuotaExceeded

definition cachePreview ::
  "'r runtime \<Rightarrow> string \<Rightarrow> ('r, 'z) loader_scheme \<Rightarrow> ('r, 'z) loader_scheme + ('r, 'z) loader_scheme" where
  "cachePreview rt key s =
     (case readCache rt key s of
        Absent \<Rightarrow> Inr s
      | Malformed \<Rightarrow> Inl s
      | Hit e \<Rightarrow> Inr (s\<lparr>dataset := data e, loading := False\<rparr>))"

definition publish ::
  "'r runtime \<Rightarrow> int \<Rightarrow> string \<Rightarrow> ('r, 'z) loader_scheme \<Rightarrow> ('r, 'z) loader_scheme" where
  "publish rt now key s =
     (setCachedData rt now key (fixture rt) (s\<lparr>dataset := fixture rt\<rparr>))
       \<lparr>loading := False, error := False\<rparr>"

definition setCachedDataThrown ::
  "string \<Rightarrow> 'r list \<Rightarrow> ('r, 'z) loader_scheme \<Rightarrow> ('r, 'z) loader_scheme" where
  "setCachedDataThrown key d s = s\<lparr>cachedData := (cachedData s)(key \<mapsto> d)\<rparr>"

definition afterAwait ::
  "'r runtime \<Rightarrow> int \<Rightarrow> storage_write \<Rightarrow> string \<Rightarrow> ('r, 'z) loader_scheme \<Rightarrow>
     ('r, 'z) loader_scheme + ('r, 'z) loader_scheme" where
  "afterAwait rt now outcome key s =
     (case outcome of
        Stored \<Rightarrow> Inr (publish rt now key s)
      | QuotaExceeded \<Rightarrow> Inl (setCachedDataThrown key (fixture rt) (s\<lparr>dataset := fixture rt\<rparr>)))"

definition onFailure :: "('r, 'z) loader_scheme \<Rightarrow> ('r, 'z) loader_scheme" where
  "onFailure s = s\<lparr>error := True, loading := False\<rparr>"

definition loadData ::
  "'r runtime \<Rightarrow> int \<Rightarrow> storage_write \<Rightarrow> string \<Rightarrow> ('r, 'z) loader_scheme \<Rightarrow> ('r, 'z) loader_scheme" where
  "loadData rt now outcome key s =
     (case cachePreview rt key s of
        Inl s1 \<Rightarrow> onFailure s1
      | Inr s1 \<Rightarrow>
          (case afterAwait rt now outcome key s1 of
             Inl s2 \<Rightarrow> onFailure s2
           | Inr s2 \<Rightarrow> s2))"

text \<open>
  The two halves of a load as steps of their own, for the runs in which other events
  happen while the load is in flight: \<open>beginLoad\<close> is the load up to the
  \<open>await\<close> (or through the \<open>catch\<close>, when the preview throws), and
  \<open>finishLoad\<close> is the continuation after the \<open>await\<close>.
\<close>

definition beginLoad :: "'r runtime \<Rightarrow> string \<Rightarrow> ('r, 'z) loader_scheme \<Rightarrow> ('r, 'z) loader_scheme" where
  "beginLoad rt key s = (case cachePreview rt key s of Inl s1 \<Rightarrow> onFailure s1 | Inr s1 \<Rightarrow> s1)"

definition finishLoad ::
  "'r runtime \<Rightarrow> int \<Rightarrow> storage_write \<Rightarrow> string \<Rightarrow> ('r, 'z) loader_scheme \<Rightarrow> ('r, 'z) loader_scheme" where
  "finishLoad rt now outcome key s =
     (case afterAwait rt now outcome key s of Inl s2 \<Rightarrow> onFailure s2 | Inr s2 \<Rightarrow> s2)"

text \<open>
  The four pages call it with the keys \<open>certificates\<close>, \<open>sshKeys\<close>,
  \<open>codeSigningKeys\<close> and \<open>auditLogs\<close>; the literal read by
  \<open>getItem\<close> is the prefix \<open>cache_\<close> followed by the key.
\<close>


section \<open>Certificates page\<close>

record cert_page = "certificate loader" +
  filterDomain :: string
  sortBy :: string
  currentPage :: int
  selectedCert :: "certificate option"
  editingCert :: "certificate option"
  searchTerm :: string

abbreviation certificates :: "cert_page \<Rightarrow> certificate list" where
  "certificates \<equiv> dataset"

definition ITEMS_PER_PAGE :: int where
  "ITEMS_PER_PAGE = 10"

text \<open>The state of a freshly mounted page: the \<open>useState\<close> initial values.\<close>

definition mountCertificatesPage :: "(string \<rightharpoonup> certificate list) \<Rightarrow> (string \<rightharpoonup> string) \<Rightarrow> cert_page" where
  "mountCertificatesPage mirror storage =
     \<lparr>dataset = [], loading = True, error = False, cachedData = mirror, localStorage = storage,
      filterDomain = ''all'', sortBy = ''expiryDate'', currentPage = 1,
      selectedCert = None, editingCert = None, searchTerm = []\<rparr>"

text \<open>The stages of \<open>filteredAndSorted\<close>, in the order of the source.\<close>

definition filterByDomain :: "string \<Rightarrow> certificate list \<Rightarrow> certificate list" where
  "filterByDomain fd result =
     (if fd \<noteq> ''all'' then filter (\<lambda>c. domain c = fd) result else result)"

definition matchesCertificate :: "string \<Rightarrow> certificate \<Rightarrow> bool" where
  "matchesCertificate term c \<longleftrightarrow>
     includes_js (toLowerCase (name c)) (toLowerCase term) \<or>
     includes_js (toLowerCase (domain c)) (toLowerCase term) \<or>
     includes_js (toLowerCase (issuer c)) (toLowerCase term)"

definition searchCertificates :: "string \<Rightarrow> certificate list \<Rightarrow> certificate list" where
  "searchCertificates term result =
     (if term \<noteq> [] then filter (matchesCertificate term) result else result)"

definition compareCertificates :: "certificate runtime \<Rightarrow> string \<Rightarrow> certificate \<Rightarrow> certificate \<Rightarrow> num" where
  "compareCertificates rt sb a b =
     (if sb = ''expiryDate'' then sub_num (getTime rt (expiryDate a)) (getTime rt (expiryDate b))
      else Some (localeCompare rt (name a) (name b)))"

definition filteredAndSorted ::
  "certificate runtime \<Rightarrow> certificate list \<Rightarrow> string \<Rightarrow> string \<Rightarrow> string \<Rightarrow> certificate list" where
  "filteredAndSorted rt certs fd sb term =
     sort_js (compareCertificates rt sb) (searchCertificates term (filterByDomain fd certs))"

definition paginatedData :: "'a list \<Rightarrow> int \<Rightarrow> 'a list" where
  "paginatedData fs page =
     (let start = (page - 1) * ITEMS_PER_PAGE;
          finish = start + ITEMS_PER_PAGE
      in slice fs start finish)"

definition totalPages :: "'a list \<Rightarrow> int" where
  "totalPages fs = \<lceil>real (length fs) / real_of_int ITEMS_PER_PAGE\<rceil>"

text \<open>What the component returns: the skeleton, the error display, or the page with its rows.\<close>

datatype 'r view = TableSkeleton | ErrorDisplay | Page "'r list"

definition visibleCertificates :: "certificate runtime \<Rightarrow> cert_page \<Rightarrow> certificate list" where
  "visibleCertificates rt s =
     filteredAndSorted rt (certificates s) (filterDomain s) (sortBy s) (searchTerm s)"

definition CertificatesPage :: "certificate runtime \<Rightarrow> cert_page \<Rightarrow> certificate view" where
  "CertificatesPage rt s =
     (if loading s \<and> length (certificates s) = 0 then TableSkeleton
      else if error s then ErrorDisplay
      else Page (paginatedData (visibleCertificates rt s) (currentPage s)))"

text \<open>
  The pagination controls exist when the page itself is rendered and \<open>totalPages > 1\<close>.
  \<open>Previous\<close> is disabled on page 1 and \<open>Next\<close> on the last page; the up to
  three numbered buttons are the ones whose page does not exceed \<open>totalPages\<close>.
\<close>

definition paginationShown :: "certificate runtime \<Rightarrow> cert_page \<Rightarrow> bool" where
  "paginationShown rt s \<longleftrightarrow>
     \<not> (loading s \<and> length (certificates s) = 0) \<and> \<not> error s \<and>
     totalPages (visibleCertificates rt s) > 1"

definition previousPage :: "int \<Rightarrow> int" where
  "previousPage p = max 1 (p - 1)"

definition nextPage :: "int \<Rightarrow> int \<Rightarrow> int" where
  "nextPage tp p = min tp (p + 1)"

definition buttonPage :: "int \<Rightarrow> int \<Rightarrow> int" where
  "buttonPage cp i = (if cp \<le> 2 then i + 1 else cp + i - 1)"

definition clickPrevious :: "certificate runtime \<Rightarrow> cert_page \<Rightarrow> cert_page" where
  "clickPrevious rt s =
     (if paginationShown rt s \<and> currentPage s \<noteq> 1
      then s\<lparr>currentPage := previousPage (currentPage s)\<rparr> else s)"

definition clickNext :: "certificate runtime \<Rightarrow> cert_page \<Rightarrow> cert_page" where
  "clickNext rt s =
     (if paginationShown rt s \<and> currentPage s \<noteq> totalPages (visibleCertificates rt s)
      then s\<lparr>currentPage := nextPage (totalPages (visibleCertificates rt s)) (currentPage s)\<rparr>
      else s)"

definition clickPage :: "certificate runtime \<Rightarrow> int \<Rightarrow> cert_page \<Rightarrow> cert_page" where
  "clickPage rt i s =
     (let tp = totalPages (visibleCertificates rt s); page = buttonPage (currentPage s) i
      in if paginationShown rt s \<and> 0 \<le> i \<and> i < min tp 3 \<and> \<not> page > tp
         then s\<lparr>currentPage := page\<rparr> else s)"

text \<open>
  The edit drawer: the pencil button opens it on a row, typing changes the name of the
  draft, and the button "Save Changes (Local Only)" commits the draft.
\<close>

definition startEdit :: "certificate \<Rightarrow> cert_page \<Rightarrow> cert_page" where
  "startEdit c s = s\<lparr>editingCert := Some c\<rparr>"

definition typeName :: "string \<Rightarrow> cert_page \<Rightarrow> cert_page" where
  "typeName v s =
     (case editingCert s of None \<Rightarrow> s | Some e \<Rightarrow> s\<lparr>editingCert := Some (e\<lparr>name := v\<rparr>)\<rparr>)"

definition saveChanges :: "cert_page \<Rightarrow> cert_page" where
  "saveChanges s =
     (case editingCert s of
        None \<Rightarrow> s
      | Some e \<Rightarrow>
          s\<lparr>dataset := map (\<lambda>c. if cert_id c = cert_id e then e else c) (certificates s),
            editingCert := None\<rparr>)"

text \<open>
  The events of the page, and a run of them from a state. A load is two events, with any
  events of the page between them. The model does not record whether a load is suspended
  at its \<open>await\<close>, so a \<open>FinishLoad\<close> may follow no \<open>BeginLoad\<close>: the runs of
  the model include the runs of the page.
\<close>

datatype cert_event =
    BeginLoad
  | FinishLoad int storage_write
  | SetSearchTerm string
  | SetFilterDomain string
  | SetSortBy string
  | ClickPrevious
  | ClickNext
  | ClickPage int
  | StartEdit certificate
  | TypeName string
  | SaveChanges

fun certStep :: "certificate runtime \<Rightarrow> cert_event \<Rightarrow> cert_page \<Rightarrow> cert_page" where
  "certStep rt BeginLoad s = beginLoad rt ''certificates'' s"
| "certStep rt (FinishLoad now outcome) s = finishLoad rt now outcome ''certificates'' s"
| "certStep rt (SetSearchTerm v) s = s\<lparr>searchTerm := v\<rparr>"
| "certStep rt (SetFilterDomain v) s = s\<lparr>filterDomain := v\<rparr>"
| "certStep rt (SetSortBy v) s = s\<lparr>sortBy := v\<rparr>"
| "certStep rt ClickPrevious s = clickPrevious rt s"
| "certStep rt ClickNext s = clickNext rt s"
| "certStep rt (ClickPage i) s = clickPage rt i s"
| "certStep rt (StartEdit c) s = startEdit c s"
| "certStep rt (TypeName v) s = typeName v s"
| "certStep rt SaveChanges s = saveChanges s"

definition certRun :: "certificate runtime \<Rightarrow> cert_event list \<Rightarrow> cert_page \<Rightarrow> cert_page" where
  "certRun rt evs s = foldl (\<lambda>st ev. certStep rt ev st) s evs"


section \<open>SSH keys page and code signing page: the list pipelines\<close>

definition getTrustLevelValue :: "trust_level \<Rightarrow> int" where
  "getTrustLevelValue level = (case level of high \<Rightarrow> 3 | medium \<Rightarrow> 2 | low \<Rightarrow> 1)"

definition matchesSSHKey :: "string \<Rightarrow> sshkey \<Rightarrow> bool" where
  "matchesSSHKey term k \<longleftrightarrow>
     includes_js (toLowerCase (keyOwner k)) (toLowerCase term) \<or>
     includes_js (toLowerCase (fingerprint k)) (toLowerCase term)"

definition searchSSHKeys :: "string \<Rightarrow> sshkey list \<Rightarrow> sshkey list" where
  "searchSSHKeys debouncedSearch result =
     (if debouncedSearch \<noteq> [] then filter (matchesSSHKey debouncedSearch) result else result)"

definition compareSSHKeys :: "sshkey runtime \<Rightarrow> string \<Rightarrow> sshkey \<Rightarrow> sshkey \<Rightarrow> num" where
  "compareSSHKeys rt sb a b =
     (if sb = ''trustLevel''
      then Some (getTrustLevelValue (trustLevel b) - getTrustLevelValue (trustLevel a))
      else Some (localeCompare rt (keyOwner a) (keyOwner b)))"

definition filteredAndSorted_ssh :: "sshkey runtime \<Rightarrow> sshkey list \<Rightarrow> string \<Rightarrow> string \<Rightarrow> sshkey list" where
  "filteredAndSorted_ssh rt keys debouncedSearch sb =
     sort_js (compareSSHKeys rt sb) (searchSSHKeys debouncedSearch keys)"

definition protectionName :: "protection_level \<Rightarrow> string" where
  "protectionName p = (case p of HSM \<Rightarrow> ''HSM'' | Soft \<Rightarrow> ''Soft'')"

definition filterByProtection :: "string \<Rightarrow> codesigningkey list \<Rightarrow> codesigningkey list" where
  "filterByProtection fp result =
     (if fp \<noteq> ''all'' then filter (\<lambda>k. protectionName (protectionLevel k) = fp) result
      else result)"

definition matchesCodeSigningKey :: "string \<Rightarrow> codesigningkey \<Rightarrow> bool" where
  "matchesCodeSigningKey term k \<longleftrightarrow>
     includes_js (toLowerCase (keyAlias k)) (toLowerCase term) \<or>
     includes_js (toLowerCase (description k)) (toLowerCase term) \<or>
     includes_js (toLowerCase (csk_algorithm k)) (toLowerCase term)"

definition searchCodeSigningKeys :: "string \<Rightarrow> codesigningkey list \<Rightarrow> codesigningkey list" where
  "searchCodeSigningKeys term result =
     (if term \<noteq> [] then filter (matchesCodeSigningKey term) result else result)"

definition compareCodeSigningKeys ::
  "codesigningkey runtime \<Rightarrow> string \<Rightarrow> codesigningkey \<Rightarrow> codesigningkey \<Rightarrow> num" where
  "compareCodeSigningKeys rt sb a b =
     (if sb = ''lastUsed'' then sub_num (getTime rt (csk_lastUsed b)) (getTime rt (csk_lastUsed a))
      else Some (localeCompare rt (keyAlias a) (keyAlias b)))"

definition filteredAndSorted_csk ::
  "codesigningkey runtime \<Rightarrow> codesigningkey list \<Rightarrow> string \<Rightarrow> string \<Rightarrow> string \<Rightarrow> codesigningkey list" where
  "filteredAndSorted_csk rt keys term fp sb =
     sort_js (compareCodeSigningKeys rt sb) (searchCodeSigningKeys term (filterByProtection fp keys))"


section \<open>Audit logs page\<close>

text \<open>
  The page state. \<open>rangeFrom\<close> and \<open>rangeTo\<close> are \<open>dateRange.from\<close> and
  \<open>dateRange.to\<close>: \<open>None\<close> is \<open>undefined\<close>, \<open>Some t\<close> a date at
  instant \<open>t\<close>. \<open>logSearchTerm\<close> is the page's \<open>searchTerm\<close>.
\<close>

record audit_page = "auditlog loader" +
  logSearchTerm :: string
  filterAction :: string
  rangeFrom :: "int option"
  rangeTo :: "int option"
  displayedCount :: int
  expandedRows :: "string set"

abbreviation logs :: "audit_page \<Rightarrow> auditlog list" where
  "logs \<equiv> dataset"

definition ITEMS_PER_LOAD :: int where
  "ITEMS_PER_LOAD = 10"

definition mountAuditLogsPage :: "(string \<rightharpoonup> auditlog list) \<Rightarrow> (string \<rightharpoonup> string) \<Rightarrow> audit_page" where
  "mountAuditLogsPage mirror storage =
     \<lparr>dataset = [], loading = True, error = False, cachedData = mirror, localStorage = storage,
      logSearchTerm = [], filterAction = ''all'', rangeFrom = None, rangeTo = None,
      displayedCount = ITEMS_PER_LOAD, expandedRows = {}\<rparr>"

definition filterByAction :: "string \<Rightarrow> auditlog list \<Rightarrow> auditlog list" where
  "filterByAction fa result =
     (if fa \<noteq> ''all'' then filter (\<lambda>l. actionType l = fa) result else result)"

definition matchesLog :: "string \<Rightarrow> auditlog \<Rightarrow> bool" where
  "matchesLog term l \<longleftrightarrow>
     includes_js (toLowerCase (actor l)) (toLowerCase term) \<or>
     includes_js (toLowerCase (targetResource l)) (toLowerCase term) \<or>
     includes_js (toLowerCase (actionType l)) (toLowerCase term)"

definition searchLogs :: "string \<Rightarrow> auditlog list \<Rightarrow> auditlog list" where
  "searchLogs term result =
     (if term \<noteq> [] then filter (matchesLog term) result else result)"

text \<open>
  \<open>logDate >= dateRange.from\<close> compares the instants; with an invalid
  \<open>logDate\<close> the comparison is false.
\<close>

definition notBefore :: "auditlog runtime \<Rightarrow> int \<Rightarrow> auditlog \<Rightarrow> bool" where
  "notBefore rt lo l = (case getTime rt (log_timestamp l) of None \<Rightarrow> False | Some t \<Rightarrow> t \<ge> lo)"

definition notAfter :: "auditlog runtime \<Rightarrow> int \<Rightarrow> auditlog \<Rightarrow> bool" where
  "notAfter rt hi l = (case getTime rt (log_timestamp l) of None \<Rightarrow> False | Some t \<Rightarrow> t \<le> hi)"

definition filterFrom :: "auditlog runtime \<Rightarrow> int option \<Rightarrow> auditlog list \<Rightarrow> auditlog list" where
  "filterFrom rt rf result = (case rf of None \<Rightarrow> result | Some lo \<Rightarrow> filter (notBefore rt lo) result)"

definition filterTo :: "auditlog runtime \<Rightarrow> int option \<Rightarrow> auditlog list \<Rightarrow> auditlog list" where
  "filterTo rt rto result = (case rto of None \<Rightarrow> result | Some hi \<Rightarrow> filter (notAfter rt hi) result)"

definition filteredLogs :: "auditlog runtime \<Rightarrow> audit_page \<Rightarrow> auditlog list" where
  "filteredLogs rt s =
     filterTo rt (rangeTo s) (filterFrom rt (rangeFrom s)
       (searchLogs (logSearchTerm s) (filterByAction (filterAction s) (logs s))))"

definition displayedLogs :: "auditlog runtime \<Rightarrow> audit_page \<Rightarrow> auditlog list" where
  "displayedLogs rt s = slice (filteredLogs rt s) 0 (displayedCount s)"

definition loadMore :: "auditlog runtime \<Rightarrow> audit_page \<Rightarrow> audit_page" where
  "loadMore rt s =
     (if displayedCount s < int (length (filteredLogs rt s))
      then s\<lparr>displayedCount := min (displayedCount s + ITEMS_PER_LOAD) (int (length (filteredLogs rt s)))\<rparr>
      else s)"

text \<open>
  The observer's callback: \<open>if (entries[0].isIntersecting && !loading) loadMore()\<close>.
  The observed sentinel is rendered only while \<open>displayedCount < filteredLogs.length\<close>,
  which is the guard of \<open>loadMore\<close> itself: a callback in any other state changes
  nothing.
\<close>

definition onIntersect :: "auditlog runtime \<Rightarrow> bool \<Rightarrow> audit_page \<Rightarrow> audit_page" where
  "onIntersect rt isIntersecting s = (if isIntersecting \<and> \<not> loading s then loadMore rt s else s)"

definition toggleRow :: "string \<Rightarrow> audit_page \<Rightarrow> audit_page" where
  "toggleRow i s =
     s\<lparr>expandedRows := (if i \<in> expandedRows s then expandedRows s - {i} else insert i (expandedRows s))\<rparr>"

text \<open>
  The events of the page. A load is two events, as on the certificates page, so that a
  reveal trigger can fire while the load is in flight. \<open>Intersect\<close> is a reveal
  trigger. The source never calls \<open>setDateRange\<close>; the event is there so that the runs
  cover every state of the type.
\<close>

datatype audit_event =
    BeginLoadLogs
  | FinishLoadLogs int storage_write
  | Intersect bool
  | SetLogSearchTerm string
  | SetFilterAction string
  | SetDateRange "int option" "int option"
  | ToggleRow string

fun auditStep :: "auditlog runtime \<Rightarrow> audit_event \<Rightarrow> audit_page \<Rightarrow> audit_page" where
  "auditStep rt BeginLoadLogs s = beginLoad rt ''auditLogs'' s"
| "auditStep rt (FinishLoadLogs now outcome) s = finishLoad rt now outcome ''auditLogs'' s"
| "auditStep rt (Intersect b) s = onIntersect rt b s"
| "auditStep rt (SetLogSearchTerm v) s = s\<lparr>logSearchTerm := v\<rparr>"
| "auditStep rt (SetFilterAction v) s = s\<lparr>filterAction := v\<rparr>"
| "auditStep rt (SetDateRange rf rto) s = s\<lparr>rangeFrom := rf, rangeTo := rto\<rparr>"
| "auditStep rt (ToggleRow i) s = toggleRow i s"

definition auditRun :: "auditlog runtime \<Rightarrow> audit_event list \<Rightarrow> audit_page \<Rightarrow> audit_page" where
  "auditRun rt evs s = foldl (\<lambda>st ev. auditStep rt ev st) s evs"


section \<open>The words of the specification\<close>

text \<open>
  "The term is a case-insensitive substring of the field": the lower-cased term occurs
  somewhere in the lower-cased field.
\<close>

definition ci_substring :: "string \<Rightarrow> string \<Rightarrow> bool" where
  "ci_substring term field \<longleftrightarrow> (\<exists>pre post. toLowerCase field = pre @ toLowerCase term @ post)"




text \<open>
  A consistent comparator in the sense of ECMAScript: it compares every value equal to
  itself, its sign is reversed when its arguments are swapped, and "not after" is
  transitive. For a consistent comparator the sorted order is the same in every engine.
\<close>

definition consistentComparator :: "(string \<Rightarrow> string \<Rightarrow> int) \<Rightarrow> bool" where
  "consistentComparator cmp \<longleftrightarrow>
     (\<forall>a. cmp a a = 0) \<and>
     (\<forall>a b. cmp a b < 0 \<longleftrightarrow> 0 < cmp b a) \<and>
     (\<forall>a b c. cmp a b \<le> 0 \<and> cmp b c \<le> 0 \<longrightarrow> cmp a c \<le> 0)"

text \<open>
  The sort key of a record under a sort mode: what the comparator of the page compares.
  Two records have equal sort keys when these values are equal.
\<close>

definition expiryInstant :: "certificate runtime \<Rightarrow> certificate \<Rightarrow> int" where
  "expiryInstant rt c = the (getTime rt (expiryDate c))"

definition certSortKey :: "certificate runtime \<Rightarrow> string \<Rightarrow> certificate \<Rightarrow> num + string" where
  "certSortKey rt sb c = (if sb = ''expiryDate'' then Inl (getTime rt (expiryDate c)) else Inr (name c))"

definition sshSortKey :: "string \<Rightarrow> sshkey \<Rightarrow> int + string" where
  "sshSortKey sb k = (if sb = ''trustLevel'' then Inl (getTrustLevelValue (trustLevel k)) else Inr (keyOwner k))"

definition cskSortKey :: "codesigningkey runtime \<Rightarrow> string \<Rightarrow> codesigningkey \<Rightarrow> num + string" where
  "cskSortKey rt sb k = (if sb = ''lastUsed'' then Inl (getTime rt (csk_lastUsed k)) else Inr (keyAlias k))"


text \<open>
  The record passes the three filters of the audit logs page: the action filter, the
  free-text search and the two bounds of the date range.
\<close>

definition keptLog :: "auditlog runtime \<Rightarrow> audit_page \<Rightarrow> auditlog \<Rightarrow> bool" where
  "keptLog rt s l \<longleftrightarrow>
     (filterAction s = ''all'' \<or> actionType l = filterAction s) \<and>
     (ci_substring (logSearchTerm s) (actor l) \<or> ci_substring (logSearchTerm s) (targetResource l) \<or>
      ci_substring (logSearchTerm s) (actionType l)) \<and>
     (case rangeFrom s of None \<Rightarrow> True
      | Some lo \<Rightarrow> (case getTime rt (log_timestamp l) of None \<Rightarrow> False | Some t \<Rightarrow> lo \<le> t)) \<and>
     (case rangeTo s of None \<Rightarrow> True
      | Some hi \<Rightarrow> (case getTime rt (log_timestamp l) of None \<Rightarrow> False | Some t \<Rightarrow> t \<le> hi))"


section \<open>Example data\<close>

text \<open>
  The two records of the specification's scenarios. The scenarios give the identifier,
  the domain and the expiry date; the other fields of the interface are empty here.
  \<open>c3\<close> expires at the same instant as \<open>c1\<close>.
\<close>

definition c1 :: certificate where
  "c1 = \<lparr>cert_id = ''c1'', name = [], domain = ''a.com'', issuer = [], status = active,
         expiryDate = ''2099-01-01'', commonName = [], serialNumber = [],
         cert_algorithm = [], cert_createdAt = []\<rparr>"

definition c2 :: certificate where
  "c2 = \<lparr>cert_id = ''c2'', name = [], domain = ''b.com'', issuer = [], status = active,
         expiryDate = ''2001-01-01'', commonName = [], serialNumber = [],
         cert_algorithm = [], cert_createdAt = []\<rparr>"

definition c3 :: certificate where
  "c3 = \<lparr>cert_id = ''c3'', name = ''gateway'', domain = ''c.com'', issuer = [], status = active,
         expiryDate = ''2099-01-01'', commonName = [], serialNumber = [],
         cert_algorithm = [], cert_createdAt = []\<rparr>"

text \<open>
  A runtime for the examples. It knows the instants of the two dates of the scenarios
  (midnight UTC, in epoch milliseconds) and compares names by code units (which is the
  locale order on the lower-case words the examples use). Every cache entry of the examples
  is captured at \<open>exampleNow\<close>.
\<close>

definition exampleGetTime :: "string \<Rightarrow> num" where
  "exampleGetTime s =
     (if s = ''2099-01-01'' then Some 4070908800000
      else if s = ''2001-01-01'' then Some 978307200000
      else None)"

fun codeUnitCompare :: "string \<Rightarrow> string \<Rightarrow> int" where
  "codeUnitCompare [] [] = 0"
| "codeUnitCompare [] (b # bs) = - 1"
| "codeUnitCompare (a # as) [] = 1"
| "codeUnitCompare (a # as) (b # bs) =
     (if a = b then codeUnitCompare as bs
      else if (of_char a :: nat) < of_char b then - 1 else 1)"

definition exampleNow :: int where
  "exampleNow = 1700000000000"

text \<open>
  The text \<open>JSON.stringify\<close> gives for a cache entry captured at
  \<open>exampleNow\<close>, from the texts of its rows, and the text of a certificate whose
  strings need no escape.
\<close>

definition statusName :: "cert_status \<Rightarrow> string" where
  "statusName st = (case st of active \<Rightarrow> ''active'' | expired \<Rightarrow> ''expired''
                    | expiring_soon \<Rightarrow> ''expiring_soon'')"

definition certificateText :: "certificate \<Rightarrow> string" where
  \<open>certificateText c =
     ''{"id":"'' @ cert_id c @ ''","name":"'' @ name c @ ''","domain":"'' @ domain c @
     ''","issuer":"'' @ issuer c @ ''","status":"'' @ statusName (status c) @
     ''","expiryDate":"'' @ expiryDate c @ ''","commonName":"'' @ commonName c @
     ''","serialNumber":"'' @ serialNumber c @ ''","algorithm":"'' @ cert_algorithm c @
     ''","createdAt":"'' @ cert_createdAt c @ ''"}''\<close>

fun joinTexts :: "string list \<Rightarrow> string" where
  "joinTexts [] = []"
| "joinTexts [t] = t"
| "joinTexts (t # u # us) = t @ '','' @ joinTexts (u # us)"

definition entryText :: "string list \<Rightarrow> string" where
  \<open>entryText rows = ''{"data":['' @ joinTexts rows @ ''],"timestamp":1700000000000}''\<close>

text \<open>
  A runtime for the examples: \<open>JSON.stringify\<close> is the text above,
  \<open>JSON.parse\<close> reads the texts of the datasets it is given and rejects every
  other text, the dates are those of \<open>exampleGetTime\<close> and names are compared by
  code units.
\<close>

definition tableRuntime :: "('r \<Rightarrow> string) \<Rightarrow> 'r list list \<Rightarrow> 'r list \<Rightarrow> 'r runtime" where
  "tableRuntime rowText known fx =
     \<lparr>JSON_parse = (\<lambda>s. map_option (\<lambda>d. \<lparr>data = d, timestamp = exampleNow\<rparr>)
                       (find (\<lambda>d. entryText (map rowText d) = s) known)),
      JSON_stringify = (\<lambda>e. entryText (map rowText (data e))),
      getTime = exampleGetTime, localeCompare = codeUnitCompare, fixture = fx\<rparr>"

definition exampleText :: string where
  "exampleText = entryText (map certificateText [c1, c2])"

definition exampleRuntime :: "certificate runtime" where
  "exampleRuntime = tableRuntime certificateText [[c1, c2]] [c1, c2]"

text \<open>
  The runtime of the page after \<open>c3\<close> has joined the bundled fixture: a cache entry
  written before holds \<open>[c1, c2]\<close>.
\<close>

definition staleRuntime :: "certificate runtime" where
  "staleRuntime = tableRuntime certificateText [[c1, c2], [c1, c2, c3]] [c1, c2, c3]"

text \<open>The runtime of a page whose fixture is empty.\<close>

definition emptyRuntime :: "'r runtime" where
  "emptyRuntime = tableRuntime (\<lambda>r. []) [[]] []"

text \<open>
  Thirty-one certificates with distinct identifiers, eleven of them of the domain
  \<open>a.com\<close>, and the runtime of a page with this fixture.
\<close>

definition aCert :: "nat \<Rightarrow> certificate" where
  "aCert i = c1\<lparr>cert_id := ''a'' @ replicate i (CHR ''x'')\<rparr>"

definition bCert :: "nat \<Rightarrow> certificate" where
  "bCert i = c2\<lparr>cert_id := ''b'' @ replicate i (CHR ''x'')\<rparr>"

definition manyCertificates :: "certificate list" where
  "manyCertificates = map aCert [0..<11] @ map bCert [0..<20]"

definition manyRuntime :: "certificate runtime" where
  "manyRuntime = tableRuntime certificateText [manyCertificates] manyCertificates"

text \<open>
  The page after the load that published the thirty-one certificates, and a run from the
  mounted page: the load, three times Next, the domain filter \<open>a.com\<close>, Previous.
\<close>

definition loadedPage :: cert_page where
  "loadedPage = (setCachedData manyRuntime exampleNow ''certificates'' manyCertificates
       (mountCertificatesPage Map.empty Map.empty))
       \<lparr>dataset := manyCertificates, loading := False, error := False\<rparr>"

definition staleEvents :: "cert_event list" where
  "staleEvents = [BeginLoad, FinishLoad exampleNow Stored, ClickNext, ClickNext, ClickNext,
                  SetFilterDomain ''a.com'', ClickPrevious]"


definition freshPage :: cert_page where
  "freshPage = mountCertificatesPage Map.empty Map.empty"

definition cachedPage :: cert_page where
  "cachedPage = mountCertificatesPage Map.empty (Map.empty(''cache_certificates'' \<mapsto> exampleText))"

text \<open>The example page after its load, and an edit of the name of \<open>c1\<close>.\<close>

definition shownPage :: cert_page where
  "shownPage = loadData exampleRuntime exampleNow Stored ''certificates'' freshPage"

definition renamedPage :: cert_page where
  "renamedPage = saveChanges (typeName ''renamed'' (startEdit c1 shownPage))"

text \<open>
  Audit logs: twenty-five entries with distinct identifiers, the last ten of the action
  type \<open>SSH_LOGIN\<close>; the text of an entry's JSON; the runtime of the page with this
  fixture; the page after its load; the mounted page whose storage holds the cache entry of
  the fixture, and the run on it of the first half of a load and a reveal trigger; and a
  run from the mounted page: the load, a reveal trigger, the action filter
  \<open>SSH_LOGIN\<close>.
\<close>

definition l1 :: auditlog where
  \<open>l1 = \<lparr>log_id = ''log-1'', log_timestamp = ''2001-01-01'', actor = ''alice'',
         email = ''alice@a.com'', actionType = ''KEY_ROTATED'', targetResource = ''release'',
         resourcePath = ''/keys/release'', metadata = ''{}''\<rparr>\<close>

definition l2 :: auditlog where
  \<open>l2 = \<lparr>log_id = ''log-2'', log_timestamp = ''2099-01-01'', actor = ''bob'',
         email = ''bob@b.com'', actionType = ''SSH_LOGIN'', targetResource = ''bastion'',
         resourcePath = ''/hosts/bastion'', metadata = ''{}''\<rparr>\<close>

definition aLog :: "nat \<Rightarrow> auditlog" where
  "aLog i = l1\<lparr>log_id := ''log-a'' @ replicate i (CHR ''x'')\<rparr>"

definition bLog :: "nat \<Rightarrow> auditlog" where
  "bLog i = l2\<lparr>log_id := ''log-b'' @ replicate i (CHR ''x'')\<rparr>"

definition manyLogs :: "auditlog list" where
  "manyLogs = map aLog [0..<15] @ map bLog [0..<10]"

definition logText :: "auditlog \<Rightarrow> string" where
  \<open>logText l =
     ''{"id":"'' @ log_id l @ ''","timestamp":"'' @ log_timestamp l @ ''","actor":"'' @ actor l @
     ''","email":"'' @ email l @ ''","actionType":"'' @ actionType l @
     ''","targetResource":"'' @ targetResource l @ ''","resourcePath":"'' @ resourcePath l @
     ''","metadata":'' @ metadata l @ ''}''\<close>

definition logsRuntime :: "auditlog runtime" where
  "logsRuntime = tableRuntime logText [manyLogs] manyLogs"

definition loadedLogs :: audit_page where
  "loadedLogs = (setCachedData logsRuntime exampleNow ''auditLogs'' manyLogs
       (mountAuditLogsPage Map.empty Map.empty))
       \<lparr>dataset := manyLogs, loading := False, error := False\<rparr>"

definition cachedLogsPage :: audit_page where
  "cachedLogsPage =
     mountAuditLogsPage Map.empty (Map.empty(''cache_auditLogs'' \<mapsto> entryText (map logText manyLogs)))"

definition inFlightReveal :: "audit_event list" where
  "inFlightReveal = [BeginLoadLogs, Intersect True]"

definition revealEvents :: "audit_event list" where
  "revealEvents = [BeginLoadLogs, FinishLoadLogs exampleNow Stored, Intersect True,
                   SetFilterAction ''SSH_LOGIN'']"

text \<open>Three SSH keys and three code signing keys, two of each with the same sort key.\<close>

definition k1 :: sshkey where
  "k1 = \<lparr>key_id = ''k1'', keyOwner = ''alice'', fingerprint = ''SHA256:aa'', lastUsed = ''2001-01-01'',
         trustLevel = low, key_algorithm = ''ed25519'', key_createdAt = ''2001-01-01'',
         associatedServers = []\<rparr>"

definition k2 :: sshkey where
  "k2 = \<lparr>key_id = ''k2'', keyOwner = ''bob'', fingerprint = ''SHA256:bb'', lastUsed = ''2001-01-01'',
         trustLevel = high, key_algorithm = ''ed25519'', key_createdAt = ''2001-01-01'',
         associatedServers = []\<rparr>"

definition k3 :: sshkey where
  "k3 = \<lparr>key_id = ''k3'', keyOwner = ''carol'', fingerprint = ''SHA256:cc'', lastUsed = ''2001-01-01'',
         trustLevel = low, key_algorithm = ''ed25519'', key_createdAt = ''2001-01-01'',
         associatedServers = []\<rparr>"

definition g1 :: codesigningkey where
  "g1 = \<lparr>csk_id = ''g1'', keyAlias = ''release'', description = [], csk_algorithm = ''rsa'',
         protectionLevel = HSM, csk_createdAt = ''2001-01-01'', csk_lastUsed = ''2001-01-01'',
         rotationPolicy = [], environment = [], owner = []\<rparr>"

definition g2 :: codesigningkey where
  "g2 = \<lparr>csk_id = ''g2'', keyAlias = ''nightly'', description = [], csk_algorithm = ''rsa'',
         protectionLevel = Soft, csk_createdAt = ''2001-01-01'', csk_lastUsed = ''2099-01-01'',
         rotationPolicy = [], environment = [], owner = []\<rparr>"

definition g3 :: codesigningkey where
  "g3 = \<lparr>csk_id = ''g3'', keyAlias = ''staging'', description = [], csk_algorithm = ''rsa'',
         protectionLevel = HSM, csk_createdAt = ''2001-01-01'', csk_lastUsed = ''2001-01-01'',
         rotationPolicy = [], environment = [], owner = []\<rparr>"


section \<open>Properties of the runtime model\<close>

lemma includes_js_sublist: "includes_js s t \<longleftrightarrow> sublist t s"
  by (induction s) (simp_all add: sublist_Cons_right)

lemma includes_js_iff: "includes_js s t \<longleftrightarrow> (\<exists>pre post. s = pre @ t @ post)"
  by (simp add: includes_js_sublist sublist_def)

lemma ci_substring_code:
  "ci_substring term field \<longleftrightarrow> includes_js (toLowerCase field) (toLowerCase term)"
  by (simp add: ci_substring_def includes_js_iff)

lemma ci_substring_empty: "ci_substring [] field"
  by (simp add: ci_substring_code includes_js_sublist toLowerCase_def)

lemma mset_insert_sorted: "mset (insert_sorted cmp x ys) = add_mset x (mset ys)"
  by (induction ys) simp_all

lemma sort_js_Nil: "sort_js cmp [] = []"
  by (simp add: sort_js_def)

lemma sort_js_Cons: "sort_js cmp (x # xs) = insert_sorted cmp x (sort_js cmp xs)"
  by (simp add: sort_js_def)

lemma mset_sort_js: "mset (sort_js cmp xs) = mset xs"
  by (induction xs) (simp_all add: sort_js_Nil sort_js_Cons mset_insert_sorted)

lemma set_sort_js: "set (sort_js cmp xs) = set xs"
  using mset_sort_js [of cmp xs] by (metis set_mset_mset)

lemma length_sort_js: "length (sort_js cmp xs) = length xs"
  using mset_sort_js [of cmp xs] by (metis size_mset)

text \<open>Insertion keeps a list sorted by a key that the comparator orders.\<close>

lemma sorted_insert_sorted:
  fixes key :: "'a \<Rightarrow> int"
  assumes "\<And>y. y \<in> set ys \<Longrightarrow> sortCompare cmp x y \<le> 0 \<longleftrightarrow> key x \<le> key y"
    and "sorted (map key ys)"
  shows "sorted (map key (insert_sorted cmp x ys))"
  using assms
proof (induction ys)
  case Nil
  then show ?case by simp
next
  case (Cons y ys)
  have members: "set (insert_sorted cmp x ys) = insert x (set ys)"
    using mset_insert_sorted [of cmp x ys] by (metis set_mset_mset set_mset_add_mset_insert)
  show ?case
  proof (cases "sortCompare cmp x y \<le> 0")
    case True
    then have "key x \<le> key y" using Cons.prems(1) [of y] by simp
    with Cons.prems(2) True show ?thesis by auto
  next
    case False
    then have "key y \<le> key x" using Cons.prems(1) [of y] by simp
    moreover have "sorted (map key (insert_sorted cmp x ys))"
      using Cons.IH Cons.prems by simp
    ultimately show ?thesis using Cons.prems(2) False by (auto simp: members)
  qed
qed

lemma sorted_sort_js:
  fixes key :: "'a \<Rightarrow> int"
  assumes "\<And>x y. x \<in> set xs \<Longrightarrow> y \<in> set xs \<Longrightarrow> sortCompare cmp x y \<le> 0 \<longleftrightarrow> key x \<le> key y"
  shows "sorted (map key (sort_js cmp xs))"
  using assms
proof (induction xs)
  case Nil
  show ?case by (simp add: sort_js_Nil)
next
  case (Cons a xs)
  have "sorted (map key (sort_js cmp xs))"
    using Cons by simp
  then have "sorted (map key (insert_sorted cmp a (sort_js cmp xs)))"
    using Cons.prems by (intro sorted_insert_sorted) (simp_all add: set_sort_js)
  then show ?case by (simp add: sort_js_Cons)
qed

text \<open>
  Stability: an element is never moved past an element of the same key, as long as the
  comparator does not rank records of one key strictly.
\<close>

lemma filter_insert_sorted_other:
  "\<not> P x \<Longrightarrow> filter P (insert_sorted cmp x ys) = filter P ys"
  by (induction ys) simp_all

lemma filter_insert_sorted_same:
  "P x \<Longrightarrow> (\<And>y. y \<in> set ys \<Longrightarrow> P y \<Longrightarrow> sortCompare cmp x y \<le> 0) \<Longrightarrow>
   filter P (insert_sorted cmp x ys) = x # filter P ys"
  by (induction ys) auto

lemma sort_js_stable:
  assumes "\<And>x y. x \<in> set xs \<Longrightarrow> y \<in> set xs \<Longrightarrow> key x = key y \<Longrightarrow> sortCompare cmp x y \<le> 0"
  shows "filter (\<lambda>x. key x = k) (sort_js cmp xs) = filter (\<lambda>x. key x = k) xs"
  using assms
proof (induction xs)
  case Nil
  show ?case by (simp add: sort_js_Nil)
next
  case (Cons a xs)
  have IH: "filter (\<lambda>x. key x = k) (sort_js cmp xs) = filter (\<lambda>x. key x = k) xs"
    using Cons by simp
  show ?case
  proof (cases "key a = k")
    case False
    then show ?thesis
      by (simp add: sort_js_Cons filter_insert_sorted_other IH)
  next
    case True
    have "filter (\<lambda>x. key x = k) (insert_sorted cmp a (sort_js cmp xs)) =
          a # filter (\<lambda>x. key x = k) (sort_js cmp xs)"
    proof (rule filter_insert_sorted_same)
      show "key a = k" by (rule True)
    next
      fix y assume "y \<in> set (sort_js cmp xs)" "key y = k"
      then show "sortCompare cmp a y \<le> 0"
        using Cons.prems [of a y] True by (simp add: set_sort_js)
    qed
    then show ?thesis
      by (simp add: sort_js_Cons IH True)
  qed
qed

lemma codeUnitCompare_refl: "codeUnitCompare x x = 0"
  by (induction x) simp_all


lemma set_filterByDomain: "set (filterByDomain fd certs) \<subseteq> set certs"
  by (simp add: filterByDomain_def)

lemma set_searchCertificates: "set (searchCertificates term certs) \<subseteq> set certs"
  by (simp add: searchCertificates_def)


section \<open>Free-text search (C5)\<close>


lemma searchLogs_filter:
  "searchLogs term ls =
     filter (\<lambda>l. ci_substring term (actor l) \<or> ci_substring term (targetResource l) \<or>
                 ci_substring term (actionType l)) ls"
proof -
  have "matchesLog term =
        (\<lambda>l. ci_substring term (actor l) \<or> ci_substring term (targetResource l) \<or>
             ci_substring term (actionType l))"
    by (rule ext) (simp add: matchesLog_def ci_substring_code)
  then show ?thesis
    by (simp add: searchLogs_def ci_substring_empty)
qed















section \<open>Sort by expiry date (C6)\<close>

lemma exampleRuntime_simps:
  "getTime exampleRuntime = exampleGetTime" "localeCompare exampleRuntime = codeUnitCompare"
  "fixture exampleRuntime = [c1, c2]"
  "JSON_parse exampleRuntime s = (if s = exampleText then Some \<lparr>data = [c1, c2], timestamp = exampleNow\<rparr> else None)"
  "JSON_stringify exampleRuntime \<lparr>data = [c1, c2], timestamp = exampleNow\<rparr> = exampleText"
  by (auto simp add: exampleRuntime_def tableRuntime_def exampleText_def)

lemma emptyRuntime_simps:
  "getTime emptyRuntime = exampleGetTime" "localeCompare emptyRuntime = codeUnitCompare"
  by (simp_all add: emptyRuntime_def tableRuntime_def)

lemma sortCompare_expiry:
  assumes "getTime rt (expiryDate x) \<noteq> None" "getTime rt (expiryDate y) \<noteq> None"
  shows "sortCompare (compareCertificates rt ''expiryDate'') x y \<le> 0 \<longleftrightarrow>
         expiryInstant rt x \<le> expiryInstant rt y"
  using assms by (auto simp: sortCompare_def compareCertificates_def expiryInstant_def)

lemma expiry_scenario:
  assumes "getTime rt ''2001-01-01'' = Some t2" "getTime rt ''2099-01-01'' = Some t1" "t2 < t1"
  shows "filteredAndSorted rt [c1, c2] ''all'' ''expiryDate'' [] = [c2, c1]"
  using assms
  by (simp add: filteredAndSorted_def filterByDomain_def searchCertificates_def sort_js_def
      sortCompare_def compareCertificates_def c1_def c2_def)

text \<open>
  C6. Under the sort mode \<open>expiryDate\<close> the pipeline orders the records by the instant
  of their expiry date, soonest first: when every date is valid the instants of the result
  ascend, and the result is a rearrangement of the filtered records. For the two-record
  example, whose dates a runtime reads as instants \<open>t2 < t1\<close>, filter \<open>all\<close> and the
  empty search term give \<open>[c2, c1]\<close>.
\<close>

theorem expiry_sort_orders_by_instant:
  "((\<forall>c \<in> set certs. getTime rt (expiryDate c) \<noteq> None) \<longrightarrow>
      sorted (map (expiryInstant rt) (filteredAndSorted rt certs fd ''expiryDate'' term))) \<and>
   mset (filteredAndSorted rt certs fd sb term) =
     mset (searchCertificates term (filterByDomain fd certs)) \<and>
   (getTime rt ''2001-01-01'' = Some t2 \<and> getTime rt ''2099-01-01'' = Some t1 \<and> t2 < t1 \<longrightarrow>
      filteredAndSorted rt [c1, c2] ''all'' ''expiryDate'' [] = [c2, c1])"
proof (intro conjI impI)
  assume valid: "\<forall>c \<in> set certs. getTime rt (expiryDate c) \<noteq> None"
  let ?xs = "searchCertificates term (filterByDomain fd certs)"
  have sub: "set ?xs \<subseteq> set certs"
    using set_searchCertificates set_filterByDomain by blast
  have "sorted (map (expiryInstant rt) (sort_js (compareCertificates rt ''expiryDate'') ?xs))"
  proof (rule sorted_sort_js)
    fix x y assume "x \<in> set ?xs" "y \<in> set ?xs"
    then have "getTime rt (expiryDate x) \<noteq> None" "getTime rt (expiryDate y) \<noteq> None"
      using valid sub by auto
    then show "sortCompare (compareCertificates rt ''expiryDate'') x y \<le> 0 \<longleftrightarrow>
               expiryInstant rt x \<le> expiryInstant rt y"
      by (rule sortCompare_expiry)
  qed
  then show "sorted (map (expiryInstant rt) (filteredAndSorted rt certs fd ''expiryDate'' term))"
    by (simp add: filteredAndSorted_def)
next
  show "mset (filteredAndSorted rt certs fd sb term) =
        mset (searchCertificates term (filterByDomain fd certs))"
    by (simp add: filteredAndSorted_def mset_sort_js)
next
  assume "getTime rt ''2001-01-01'' = Some t2 \<and> getTime rt ''2099-01-01'' = Some t1 \<and> t2 < t1"
  then show "filteredAndSorted rt [c1, c2] ''all'' ''expiryDate'' [] = [c2, c1]"
    using expiry_scenario by blast
qed

theorem expiry_sort_orders_by_instant_witness:
  "filteredAndSorted exampleRuntime [c1, c2] ''all'' ''expiryDate'' [] = [c2, c1] \<and>
   map (expiryInstant exampleRuntime)
     (filteredAndSorted exampleRuntime [c1, c2] ''all'' ''expiryDate'' [])
     = [978307200000, 4070908800000] \<and>
   sorted (map (expiryInstant exampleRuntime)
     (filteredAndSorted exampleRuntime [c1, c2] ''all'' ''expiryDate'' []))"
proof -
  have times: "getTime exampleRuntime ''2001-01-01'' = Some 978307200000 \<and>
        getTime exampleRuntime ''2099-01-01'' = Some 4070908800000 \<and>
        (978307200000::int) < 4070908800000"
    by (simp add: exampleRuntime_simps exampleGetTime_def)
  have valid: "\<forall>c \<in> set [c1, c2]. getTime exampleRuntime (expiryDate c) \<noteq> None"
    by (simp add: exampleRuntime_simps exampleGetTime_def c1_def c2_def)
  note inst = expiry_sort_orders_by_instant [of "[c1, c2]" exampleRuntime "''all''" "[]"
      "''expiryDate''" 978307200000 4070908800000]
  have order: "filteredAndSorted exampleRuntime [c1, c2] ''all'' ''expiryDate'' [] = [c2, c1]"
    using inst times by blast
  have "sorted (map (expiryInstant exampleRuntime)
          (filteredAndSorted exampleRuntime [c1, c2] ''all'' ''expiryDate'' []))"
    using inst valid by blast
  moreover have "map (expiryInstant exampleRuntime) [c2, c1] = [978307200000, 4070908800000]"
    by (simp add: expiryInstant_def exampleRuntime_simps exampleGetTime_def c1_def c2_def)
  ultimately show ?thesis using order by simp
qed


section \<open>Stability of the sort stage (C7)\<close>

lemma sortCompare_cert_same_key:
  assumes "\<forall>x. localeCompare rt x x = 0" "certSortKey rt sb x = certSortKey rt sb y"
  shows "sortCompare (compareCertificates rt sb) x y \<le> 0"
  using assms
  by (cases "getTime rt (expiryDate y)")
     (auto simp: sortCompare_def compareCertificates_def certSortKey_def split: if_splits)

lemma sortCompare_ssh_same_key:
  assumes "\<forall>x. localeCompare rt x x = 0" "sshSortKey sb x = sshSortKey sb y"
  shows "sortCompare (compareSSHKeys rt sb) x y \<le> 0"
  using assms
  by (auto simp: sortCompare_def compareSSHKeys_def sshSortKey_def split: if_splits)

lemma sortCompare_csk_same_key:
  assumes "\<forall>x. localeCompare rt x x = 0" "cskSortKey rt sb x = cskSortKey rt sb y"
  shows "sortCompare (compareCodeSigningKeys rt sb) x y \<le> 0"
  using assms
  by (cases "getTime rt (csk_lastUsed y)")
     (auto simp: sortCompare_def compareCodeSigningKeys_def cskSortKey_def split: if_splits)

lemma codeUnitCompare_values: "codeUnitCompare a b \<in> {- 1, 0, 1}"
  by (induction a b rule: codeUnitCompare.induct) auto

lemma codeUnitCompare_antisym: "codeUnitCompare a b < 0 \<longleftrightarrow> 0 < codeUnitCompare b a"
proof (induction a b rule: codeUnitCompare.induct)
  case (4 a as b bs)
  show ?case
  proof (cases "a = b")
    case True
    with 4 show ?thesis by simp
  next
    case False
    then have "(of_char a :: nat) \<noteq> of_char b" by simp
    then show ?thesis using False by auto
  qed
qed simp_all

lemma codeUnitCompare_trans:
  "codeUnitCompare a b \<le> 0 \<Longrightarrow> codeUnitCompare b c \<le> 0 \<Longrightarrow> codeUnitCompare a c \<le> 0"
proof (induction a arbitrary: b c)
  case Nil
  then show ?case by (cases c) simp_all
next
  case (Cons x xs)
  from Cons.prems(1) obtain y ys where b: "b = y # ys"
    by (cases b) simp_all
  from Cons.prems(2) b obtain z zs where c: "c = z # zs"
    by (cases c) simp_all
  have ne: "u \<noteq> v \<Longrightarrow> (of_char u :: nat) \<noteq> of_char v" for u v :: char
    by simp
  show ?case
  proof (cases "x = y")
    case xy: True
    show ?thesis
    proof (cases "y = z")
      case True
      with xy Cons b c show ?thesis by simp
    next
      case False
      with xy Cons.prems b c show ?thesis by (simp split: if_splits)
    qed
  next
    case xy: False
    then have lt: "(of_char x :: nat) < of_char y"
      using Cons.prems(1) b by (simp split: if_splits)
    show ?thesis
    proof (cases "y = z")
      case True
      with xy lt c show ?thesis by simp
    next
      case False
      then have "(of_char y :: nat) < of_char z"
        using Cons.prems(2) b c by (simp split: if_splits)
      with lt have "(of_char x :: nat) < of_char z" by simp
      then show ?thesis using c by auto
    qed
  qed
qed

lemma consistent_codeUnitCompare: "consistentComparator codeUnitCompare"
  unfolding consistentComparator_def
  using codeUnitCompare_refl codeUnitCompare_antisym codeUnitCompare_trans by blast

lemma consistent_refl: "consistentComparator cmp \<Longrightarrow> \<forall>x. cmp x x = 0"
  by (simp add: consistentComparator_def)

text \<open>
  On such inputs the comparator that each page hands to \<open>sort\<close> is itself
  consistent over the records of the input, as \<open>sort\<close> reads it.
\<close>

lemma compareCertificates_consistent:
  assumes "consistentComparator (localeCompare rt)"
    and "sb = ''expiryDate'' \<longrightarrow> (\<forall>c \<in> set certs. getTime rt (expiryDate c) \<noteq> None)"
    and "a \<in> set certs" "b \<in> set certs" "c \<in> set certs"
  shows "sortCompare (compareCertificates rt sb) a a = 0"
    and "sortCompare (compareCertificates rt sb) a b < 0 \<longleftrightarrow> 0 < sortCompare (compareCertificates rt sb) b a"
    and "sortCompare (compareCertificates rt sb) a b \<le> 0 \<and> sortCompare (compareCertificates rt sb) b c \<le> 0
         \<longrightarrow> sortCompare (compareCertificates rt sb) a c \<le> 0"
proof -
  show "sortCompare (compareCertificates rt sb) a a = 0"
    using assms by (cases "sb = ''expiryDate''")
      (auto simp: sortCompare_def compareCertificates_def consistentComparator_def
        split: option.splits)
  show "sortCompare (compareCertificates rt sb) a b < 0 \<longleftrightarrow> 0 < sortCompare (compareCertificates rt sb) b a"
  proof (cases "sb = ''expiryDate''")
    case True
    with assms have "\<forall>c \<in> set certs. \<exists>y. getTime rt (expiryDate c) = Some y"
      by simp
    with assms(3,4) obtain x y where "getTime rt (expiryDate a) = Some x" "getTime rt (expiryDate b) = Some y"
      by blast
    with True show ?thesis
      by (auto simp: sortCompare_def compareCertificates_def)
  next
    case False
    with assms(1) show ?thesis
      by (simp add: sortCompare_def compareCertificates_def consistentComparator_def)
  qed
  show "sortCompare (compareCertificates rt sb) a b \<le> 0 \<and> sortCompare (compareCertificates rt sb) b c \<le> 0
         \<longrightarrow> sortCompare (compareCertificates rt sb) a c \<le> 0"
  proof (cases "sb = ''expiryDate''")
    case True
    with assms have "\<forall>c \<in> set certs. \<exists>y. getTime rt (expiryDate c) = Some y"
      by simp
    with assms(3,4,5) obtain x y z where "getTime rt (expiryDate a) = Some x"
      "getTime rt (expiryDate b) = Some y" "getTime rt (expiryDate c) = Some z"
      by blast
    with True show ?thesis
      by (auto simp: sortCompare_def compareCertificates_def)
  next
    case False
    from assms(1) have "\<And>a b c. localeCompare rt a b \<le> 0 \<Longrightarrow> localeCompare rt b c \<le> 0
        \<Longrightarrow> localeCompare rt a c \<le> 0"
      unfolding consistentComparator_def by blast
    with False show ?thesis
      by (auto simp: sortCompare_def compareCertificates_def)
  qed
qed

lemma compareSSHKeys_consistent:
  assumes "consistentComparator (localeCompare rt)"
  shows "sortCompare (compareSSHKeys rt sb) a a = 0"
    and "sortCompare (compareSSHKeys rt sb) a b < 0 \<longleftrightarrow> 0 < sortCompare (compareSSHKeys rt sb) b a"
    and "sortCompare (compareSSHKeys rt sb) a b \<le> 0 \<and> sortCompare (compareSSHKeys rt sb) b c \<le> 0
         \<longrightarrow> sortCompare (compareSSHKeys rt sb) a c \<le> 0"
proof -
  from assms have r: "\<And>a. localeCompare rt a a = 0"
    and s: "\<And>a b. localeCompare rt a b < 0 \<longleftrightarrow> 0 < localeCompare rt b a"
    and t: "\<And>a b c. localeCompare rt a b \<le> 0 \<Longrightarrow> localeCompare rt b c \<le> 0
        \<Longrightarrow> localeCompare rt a c \<le> 0"
    unfolding consistentComparator_def by blast+
  show "sortCompare (compareSSHKeys rt sb) a a = 0"
    by (simp add: sortCompare_def compareSSHKeys_def r)
  show "sortCompare (compareSSHKeys rt sb) a b < 0 \<longleftrightarrow> 0 < sortCompare (compareSSHKeys rt sb) b a"
    using s by (auto simp: sortCompare_def compareSSHKeys_def)
  show "sortCompare (compareSSHKeys rt sb) a b \<le> 0 \<and> sortCompare (compareSSHKeys rt sb) b c \<le> 0
         \<longrightarrow> sortCompare (compareSSHKeys rt sb) a c \<le> 0"
    using t by (auto simp: sortCompare_def compareSSHKeys_def)
qed

lemma compareCodeSigningKeys_consistent:
  assumes "consistentComparator (localeCompare rt)"
    and "sb = ''lastUsed'' \<longrightarrow> (\<forall>c \<in> set gs. getTime rt (csk_lastUsed c) \<noteq> None)"
    and "a \<in> set gs" "b \<in> set gs" "c \<in> set gs"
  shows "sortCompare (compareCodeSigningKeys rt sb) a a = 0"
    and "sortCompare (compareCodeSigningKeys rt sb) a b < 0 \<longleftrightarrow> 0 < sortCompare (compareCodeSigningKeys rt sb) b a"
    and "sortCompare (compareCodeSigningKeys rt sb) a b \<le> 0 \<and> sortCompare (compareCodeSigningKeys rt sb) b c \<le> 0
         \<longrightarrow> sortCompare (compareCodeSigningKeys rt sb) a c \<le> 0"
proof -
  from assms(1) have r: "\<And>a. localeCompare rt a a = 0"
    and s: "\<And>a b. localeCompare rt a b < 0 \<longleftrightarrow> 0 < localeCompare rt b a"
    and t: "\<And>a b c. localeCompare rt a b \<le> 0 \<Longrightarrow> localeCompare rt b c \<le> 0
        \<Longrightarrow> localeCompare rt a c \<le> 0"
    unfolding consistentComparator_def by blast+
  show "sortCompare (compareCodeSigningKeys rt sb) a a = 0"
    using assms r by (cases "sb = ''lastUsed''")
      (auto simp: sortCompare_def compareCodeSigningKeys_def split: option.splits)
  show "sortCompare (compareCodeSigningKeys rt sb) a b < 0 \<longleftrightarrow> 0 < sortCompare (compareCodeSigningKeys rt sb) b a"
  proof (cases "sb = ''lastUsed''")
    case True
    with assms have "\<forall>c \<in> set gs. \<exists>y. getTime rt (csk_lastUsed c) = Some y"
      by simp
    with assms(3,4) obtain x y where "getTime rt (csk_lastUsed a) = Some x" "getTime rt (csk_lastUsed b) = Some y"
      by blast
    with True show ?thesis
      by (auto simp: sortCompare_def compareCodeSigningKeys_def)
  next
    case False
    with s show ?thesis
      by (simp add: sortCompare_def compareCodeSigningKeys_def)
  qed
  show "sortCompare (compareCodeSigningKeys rt sb) a b \<le> 0 \<and> sortCompare (compareCodeSigningKeys rt sb) b c \<le> 0
         \<longrightarrow> sortCompare (compareCodeSigningKeys rt sb) a c \<le> 0"
  proof (cases "sb = ''lastUsed''")
    case True
    with assms have "\<forall>c \<in> set gs. \<exists>y. getTime rt (csk_lastUsed c) = Some y"
      by simp
    with assms(3,4,5) obtain x y z where "getTime rt (csk_lastUsed a) = Some x"
      "getTime rt (csk_lastUsed b) = Some y" "getTime rt (csk_lastUsed c) = Some z"
      by blast
    with True show ?thesis
      by (auto simp: sortCompare_def compareCodeSigningKeys_def)
  next
    case False
    with t show ?thesis
      by (auto simp: sortCompare_def compareCodeSigningKeys_def)
  qed
qed

text \<open>
  C7. The sort stage of the certificates, SSH keys and code signing pages is stable: for
  every sort mode and every sort key \<open>k\<close>, the records of key \<open>k\<close> stand in the
  sorted list in the order they have in the input of the sort. The statement is for the
  inputs on which the comparator of the page is consistent: the comparison of names, a
  parameter, is a consistent comparator, and under the sort modes that compare dates every
  date of the input is valid.
\<close>

theorem sort_stage_is_stable:
  "(consistentComparator (localeCompare rt) \<and>
    (sb = ''expiryDate'' \<longrightarrow> (\<forall>c \<in> set certs. getTime rt (expiryDate c) \<noteq> None)) \<longrightarrow>
      filter (\<lambda>c. certSortKey rt sb c = k) (filteredAndSorted rt certs fd sb tm) =
      filter (\<lambda>c. certSortKey rt sb c = k) (searchCertificates tm (filterByDomain fd certs))) \<and>
   (consistentComparator (localeCompare rt2) \<longrightarrow>
      filter (\<lambda>c. sshSortKey sb2 c = kk) (filteredAndSorted_ssh rt2 keys tm2 sb2) =
      filter (\<lambda>c. sshSortKey sb2 c = kk) (searchSSHKeys tm2 keys)) \<and>
   (consistentComparator (localeCompare rt3) \<and>
    (sb3 = ''lastUsed'' \<longrightarrow> (\<forall>c \<in> set gs. getTime rt3 (csk_lastUsed c) \<noteq> None)) \<longrightarrow>
      filter (\<lambda>c. cskSortKey rt3 sb3 c = kg) (filteredAndSorted_csk rt3 gs tm3 fp sb3) =
      filter (\<lambda>c. cskSortKey rt3 sb3 c = kg) (searchCodeSigningKeys tm3 (filterByProtection fp gs)))"
proof (intro conjI impI)
  assume "consistentComparator (localeCompare rt) \<and>
    (sb = ''expiryDate'' \<longrightarrow> (\<forall>c \<in> set certs. getTime rt (expiryDate c) \<noteq> None))"
  then have "\<forall>x. localeCompare rt x x = 0"
    by (simp add: consistent_refl)
  then show "filter (\<lambda>c. certSortKey rt sb c = k) (filteredAndSorted rt certs fd sb tm) =
      filter (\<lambda>c. certSortKey rt sb c = k) (searchCertificates tm (filterByDomain fd certs))"
    unfolding filteredAndSorted_def
    by (intro sort_js_stable sortCompare_cert_same_key)
next
  assume "consistentComparator (localeCompare rt2)"
  then have "\<forall>x. localeCompare rt2 x x = 0"
    by (simp add: consistent_refl)
  then show "filter (\<lambda>c. sshSortKey sb2 c = kk) (filteredAndSorted_ssh rt2 keys tm2 sb2) =
      filter (\<lambda>c. sshSortKey sb2 c = kk) (searchSSHKeys tm2 keys)"
    unfolding filteredAndSorted_ssh_def
    by (intro sort_js_stable sortCompare_ssh_same_key)
next
  assume "consistentComparator (localeCompare rt3) \<and>
    (sb3 = ''lastUsed'' \<longrightarrow> (\<forall>c \<in> set gs. getTime rt3 (csk_lastUsed c) \<noteq> None))"
  then have "\<forall>x. localeCompare rt3 x x = 0"
    by (simp add: consistent_refl)
  then show "filter (\<lambda>c. cskSortKey rt3 sb3 c = kg) (filteredAndSorted_csk rt3 gs tm3 fp sb3) =
      filter (\<lambda>c. cskSortKey rt3 sb3 c = kg) (searchCodeSigningKeys tm3 (filterByProtection fp gs))"
    unfolding filteredAndSorted_csk_def
    by (intro sort_js_stable sortCompare_csk_same_key)
qed

theorem sort_stage_is_stable_witness:
  "consistentComparator codeUnitCompare \<and>
   filteredAndSorted exampleRuntime [c1, c3, c2] ''all'' ''expiryDate'' [] = [c2, c1, c3] \<and>
   filter (\<lambda>c. certSortKey exampleRuntime ''expiryDate'' c = Inl (Some 4070908800000))
     (filteredAndSorted exampleRuntime [c1, c3, c2] ''all'' ''expiryDate'' []) = [c1, c3] \<and>
   filteredAndSorted_ssh emptyRuntime [k1, k2, k3] [] ''trustLevel'' = [k2, k1, k3] \<and>
   filter (\<lambda>c. sshSortKey ''trustLevel'' c = Inl 1)
     (filteredAndSorted_ssh emptyRuntime [k1, k2, k3] [] ''trustLevel'') = [k1, k3] \<and>
   filteredAndSorted_csk emptyRuntime [g1, g2, g3] [] ''all'' ''lastUsed'' = [g2, g1, g3] \<and>
   filter (\<lambda>c. cskSortKey emptyRuntime ''lastUsed'' c = Inl (Some 978307200000))
     (filteredAndSorted_csk emptyRuntime [g1, g2, g3] [] ''all'' ''lastUsed'') = [g1, g3]"
proof -
  have r1: "consistentComparator (localeCompare exampleRuntime) \<and>
      (''expiryDate'' = ''expiryDate'' \<longrightarrow>
         (\<forall>c \<in> set [c1, c3, c2]. getTime exampleRuntime (expiryDate c) \<noteq> None))"
    by (simp add: exampleRuntime_simps consistent_codeUnitCompare exampleGetTime_def
        c1_def c2_def c3_def)
  have r2: "consistentComparator (localeCompare (emptyRuntime :: sshkey runtime))"
    by (simp add: emptyRuntime_simps consistent_codeUnitCompare)
  have r3: "consistentComparator (localeCompare (emptyRuntime :: codesigningkey runtime)) \<and>
      (''lastUsed'' = ''lastUsed'' \<longrightarrow>
         (\<forall>c \<in> set [g1, g2, g3]. getTime emptyRuntime (csk_lastUsed c) \<noteq> None))"
    by (simp add: emptyRuntime_simps consistent_codeUnitCompare exampleGetTime_def
        g1_def g2_def g3_def)
  note inst = sort_stage_is_stable [where rt = exampleRuntime and sb = "''expiryDate''"
      and k = "Inl (Some 4070908800000)" and certs = "[c1, c3, c2]" and fd = "''all''" and tm = "[]"
      and ?rt2.0 = "emptyRuntime" and ?sb2.0 = "''trustLevel''" and kk = "Inl 1" and keys = "[k1, k2, k3]"
      and ?tm2.0 = "[]"
      and ?rt3.0 = "emptyRuntime" and ?sb3.0 = "''lastUsed''" and kg = "Inl (Some 978307200000)"
      and gs = "[g1, g2, g3]" and ?tm3.0 = "[]" and fp = "''all''"]
  have e1: "filteredAndSorted exampleRuntime [c1, c3, c2] ''all'' ''expiryDate'' [] = [c2, c1, c3]"
    by (simp add: filteredAndSorted_def filterByDomain_def searchCertificates_def sort_js_def
      sortCompare_def compareCertificates_def c1_def c2_def c3_def exampleRuntime_simps exampleGetTime_def)
  have e2: "filteredAndSorted_ssh emptyRuntime [k1, k2, k3] [] ''trustLevel'' = [k2, k1, k3]"
    by (simp add: filteredAndSorted_ssh_def searchSSHKeys_def sort_js_def
      sortCompare_def compareSSHKeys_def k1_def k2_def k3_def getTrustLevelValue_def)
  have e3: "filteredAndSorted_csk emptyRuntime [g1, g2, g3] [] ''all'' ''lastUsed'' = [g2, g1, g3]"
    by (simp add: filteredAndSorted_csk_def searchCodeSigningKeys_def filterByProtection_def sort_js_def
      sortCompare_def compareCodeSigningKeys_def g1_def g2_def g3_def emptyRuntime_simps exampleGetTime_def)
  have f1: "filter (\<lambda>c. certSortKey exampleRuntime ''expiryDate'' c = Inl (Some 4070908800000)) [c1, c3, c2] = [c1, c3]"
    by (simp add: certSortKey_def c1_def c2_def c3_def exampleRuntime_simps exampleGetTime_def)
  have f2: "filter (\<lambda>c. sshSortKey ''trustLevel'' c = Inl 1) [k1, k2, k3] = [k1, k3]"
    by (simp add: sshSortKey_def k1_def k2_def k3_def getTrustLevelValue_def)
  have f3: "filter (\<lambda>c. cskSortKey emptyRuntime ''lastUsed'' c = Inl (Some 978307200000)) [g1, g2, g3] = [g1, g3]"
    by (simp add: cskSortKey_def g1_def g2_def g3_def emptyRuntime_simps exampleGetTime_def)
  have s1: "searchCertificates [] (filterByDomain ''all'' [c1, c3, c2]) = [c1, c3, c2]"
    by (simp add: searchCertificates_def filterByDomain_def)
  have s2: "searchSSHKeys [] [k1, k2, k3] = [k1, k2, k3]"
    by (simp add: searchSSHKeys_def)
  have s3: "searchCodeSigningKeys [] (filterByProtection ''all'' [g1, g2, g3]) = [g1, g2, g3]"
    by (simp add: searchCodeSigningKeys_def filterByProtection_def)
  note rewritten = inst [unfolded s1 s2 s3 f1 f2 f3]
  from rewritten r1 r2 r3 have
    "filter (\<lambda>c. certSortKey exampleRuntime ''expiryDate'' c = Inl (Some 4070908800000))
       (filteredAndSorted exampleRuntime [c1, c3, c2] ''all'' ''expiryDate'' []) = [c1, c3]"
    "filter (\<lambda>c. sshSortKey ''trustLevel'' c = Inl 1)
       (filteredAndSorted_ssh emptyRuntime [k1, k2, k3] [] ''trustLevel'') = [k1, k3]"
    "filter (\<lambda>c. cskSortKey emptyRuntime ''lastUsed'' c = Inl (Some 978307200000))
       (filteredAndSorted_csk emptyRuntime [g1, g2, g3] [] ''all'' ''lastUsed'') = [g1, g3]"
    by blast+
  with e1 e2 e3 show ?thesis
    by (simp only: consistent_codeUnitCompare simp_thms)
qed


section \<open>Paged window (C3)\<close>

lemma exampleText_literal:
  \<open>exampleText = ''{"data":[{"id":"c1","name":"","domain":"a.com","issuer":"","status":"active","expiryDate":"2099-01-01","commonName":"","serialNumber":"","algorithm":"","createdAt":""},{"id":"c2","name":"","domain":"b.com","issuer":"","status":"active","expiryDate":"2001-01-01","commonName":"","serialNumber":"","algorithm":"","createdAt":""}],"timestamp":1700000000000}''\<close>
  by (simp add: exampleText_def entryText_def certificateText_def c1_def c2_def statusName_def)

lemma totalPages_div: "totalPages fs = (int (length fs) + 9) div 10"
proof -
  have "\<lceil>real (length fs) / real_of_int 10\<rceil> = - (- int (length fs) div 10)"
    using ceiling_divide_eq_div [of "int (length fs)" 10, where ?'a = real] by simp
  then show ?thesis
    by (simp add: totalPages_def ITEMS_PER_PAGE_def) 
qed

lemma slice_ordered:
  assumes "0 \<le> start" "start \<le> finish"
  shows "slice xs start finish = take (nat (finish - start)) (drop (nat start) xs)"
proof -
  let ?len = "int (length xs)"
  have "slice xs start finish = take (nat (min finish ?len - min start ?len)) (drop (nat (min start ?len)) xs)"
    using assms by (simp add: slice_def Let_def)
  also have "\<dots> = take (nat (finish - start)) (drop (nat start) xs)"
  proof (cases "start \<le> ?len")
    case True
    then have "min start ?len = start" by simp
    moreover have "take (nat (min finish ?len - start)) (drop (nat start) xs) = take (nat (finish - start)) (drop (nat start) xs)"
    proof (cases "finish \<le> ?len")
      case True then show ?thesis by (simp add: min_def)
    next
      case False
      then have "min finish ?len = ?len" by simp
      moreover have "length (drop (nat start) xs) = nat (?len - start)" using assms by (simp add: nat_diff_distrib')
      ultimately show ?thesis using False assms by simp
    qed
    ultimately show ?thesis by simp
  next
    case False
    then show ?thesis using assms by simp
  qed
  finally show ?thesis .
qed

lemma length_slice_ordered:
  assumes "0 \<le> start" "start \<le> finish"
  shows "int (length (slice xs start finish)) = max 0 (min finish (int (length xs)) - start)"
  using assms by (simp add: slice_ordered) 

lemma length_paginatedData:
  assumes "1 \<le> p" "p \<le> totalPages fs"
  shows "int (length (paginatedData fs p)) = min ITEMS_PER_PAGE (int (length fs) - (p - 1) * ITEMS_PER_PAGE)"
proof -
  have "(p - 1) * 10 < int (length fs)"
    using assms by (simp add: totalPages_div) 
  moreover have "int (length (paginatedData fs p)) = max 0 (min ((p - 1) * 10 + 10) (int (length fs)) - (p - 1) * 10)"
    using assms by (simp add: paginatedData_def Let_def ITEMS_PER_PAGE_def length_slice_ordered)
  ultimately show ?thesis
    by (simp add: ITEMS_PER_PAGE_def)
qed

lemma visible_currentPage [simp]:
  "visibleCertificates rt (s\<lparr>currentPage := p\<rparr>) = visibleCertificates rt s"
  by (simp add: visibleCertificates_def)

lemma clickPrevious_in_range:
  assumes "1 \<le> currentPage s" "currentPage s \<le> totalPages (visibleCertificates rt s)"
  shows "1 \<le> currentPage (clickPrevious rt s) \<and>
         currentPage (clickPrevious rt s) \<le> totalPages (visibleCertificates rt (clickPrevious rt s))"
  using assms by (simp add: clickPrevious_def previousPage_def)

lemma clickNext_in_range:
  assumes "1 \<le> currentPage s" "currentPage s \<le> totalPages (visibleCertificates rt s)"
  shows "1 \<le> currentPage (clickNext rt s) \<and>
         currentPage (clickNext rt s) \<le> totalPages (visibleCertificates rt (clickNext rt s))"
  using assms by (simp add: clickNext_def nextPage_def)

lemma clickPage_in_range:
  assumes "1 \<le> currentPage s" "currentPage s \<le> totalPages (visibleCertificates rt s)"
  shows "1 \<le> currentPage (clickPage rt i s) \<and>
         currentPage (clickPage rt i s) \<le> totalPages (visibleCertificates rt (clickPage rt i s))"
  using assms by (simp add: clickPage_def buttonPage_def Let_def)

lemma length_visible:
  "length (visibleCertificates rt s) = length (searchCertificates (searchTerm s) (filterByDomain (filterDomain s) (certificates s)))"
  by (simp add: visibleCertificates_def filteredAndSorted_def length_sort_js)

lemma totalPages_visible:
  "totalPages (visibleCertificates rt s) = (int (length (searchCertificates (searchTerm s) (filterByDomain (filterDomain s) (certificates s)))) + 9) div 10"
  by (simp add: totalPages_div length_visible)

lemma manyRuntime_fixture: "fixture manyRuntime = manyCertificates"
  by (simp add: manyRuntime_def tableRuntime_def)

lemma domain_many: "domain (aCert i) = ''a.com''" "domain (bCert i) = ''b.com''"
  by (simp_all add: aCert_def bCert_def c1_def c2_def)

lemma filter_many: "filter (\<lambda>c. domain c = ''a.com'') manyCertificates = map aCert [0..<11]"
  by (simp add: manyCertificates_def filter_map comp_def domain_many)

lemma length_many: "length manyCertificates = 31"
  by (simp add: manyCertificates_def)

lemma loaded:
  "finishLoad manyRuntime exampleNow Stored ''certificates''
     (beginLoad manyRuntime ''certificates'' (mountCertificatesPage Map.empty Map.empty))
   = (setCachedData manyRuntime exampleNow ''certificates'' manyCertificates (mountCertificatesPage Map.empty Map.empty))
       \<lparr>dataset := manyCertificates, loading := False, error := False\<rparr>"
  by (simp add: beginLoad_def finishLoad_def cachePreview_def readCache_def mountCertificatesPage_def
      afterAwait_def publish_def manyRuntime_fixture setCachedData_def)

lemma loadedPage_fields:
  "certificates loadedPage = manyCertificates" "\<not> loading loadedPage" "\<not> error loadedPage"
  "filterDomain loadedPage = ''all''" "searchTerm loadedPage = []" "currentPage loadedPage = 1"
  by (simp_all add: loadedPage_def setCachedData_def mountCertificatesPage_def)

lemma totalPages_all:
  assumes "certificates s = manyCertificates" "filterDomain s = ''all''" "searchTerm s = []"
  shows "totalPages (visibleCertificates rt s) = 4"
  using assms by (simp add: totalPages_visible searchCertificates_def filterByDomain_def length_many)

lemma totalPages_a:
  assumes "certificates s = manyCertificates" "filterDomain s = ''a.com''" "searchTerm s = []"
  shows "totalPages (visibleCertificates rt s) = 2"
  using assms by (simp add: totalPages_visible searchCertificates_def filterByDomain_def filter_many)

lemma next_all:
  assumes "certificates s = manyCertificates" "filterDomain s = ''all''" "searchTerm s = []"
    "\<not> loading s" "\<not> error s" "currentPage s \<noteq> 4"
  shows "clickNext rt s = s\<lparr>currentPage := min 4 (currentPage s + 1)\<rparr>"
  using assms by (simp add: clickNext_def paginationShown_def totalPages_all nextPage_def)

lemma prev_a:
  assumes "certificates s = manyCertificates" "filterDomain s = ''a.com''" "searchTerm s = []"
    "\<not> loading s" "\<not> error s" "currentPage s \<noteq> 1"
  shows "clickPrevious rt s = s\<lparr>currentPage := max 1 (currentPage s - 1)\<rparr>"
  using assms by (simp add: clickPrevious_def paginationShown_def totalPages_a previousPage_def)

lemma stale_run:
  "certRun manyRuntime staleEvents (mountCertificatesPage Map.empty Map.empty) =
   loadedPage\<lparr>currentPage := 3, filterDomain := ''a.com''\<rparr>"
proof -
  have "certRun manyRuntime staleEvents (mountCertificatesPage Map.empty Map.empty) =
    clickPrevious manyRuntime ((clickNext manyRuntime (clickNext manyRuntime (clickNext manyRuntime loadedPage)))\<lparr>filterDomain := ''a.com''\<rparr>)"
    by (simp only: certRun_def staleEvents_def foldl.simps certStep.simps loaded loadedPage_def)
  also have "clickNext manyRuntime loadedPage = loadedPage\<lparr>currentPage := 2\<rparr>"
    by (subst next_all) (simp_all add: loadedPage_fields)
  also have "clickNext manyRuntime (loadedPage\<lparr>currentPage := 2\<rparr>) = loadedPage\<lparr>currentPage := 3\<rparr>"
    by (subst next_all) (simp_all add: loadedPage_fields)
  also have "clickNext manyRuntime (loadedPage\<lparr>currentPage := 3\<rparr>) = loadedPage\<lparr>currentPage := 4\<rparr>"
    by (subst next_all) (simp_all add: loadedPage_fields)
  also have "clickPrevious manyRuntime (loadedPage\<lparr>currentPage := 4, filterDomain := ''a.com''\<rparr>) =
      loadedPage\<lparr>currentPage := 3, filterDomain := ''a.com''\<rparr>"
    by (subst prev_a) (simp_all add: loadedPage_fields)
  finally show ?thesis .
qed

lemma slice_beyond:
  assumes "int (length xs) \<le> start"
  shows "slice xs start finish = []"
proof -
  have "0 \<le> start" using assms by simp
  then show ?thesis using assms by (simp add: slice_def Let_def)
qed

text \<open>
  C3, amended. For every page \<open>p\<close> in \<open>[1, totalPages]\<close> the displayed rows
  number \<open>min(10, filteredCount - (p - 1) * 10)\<close>, where
  \<open>totalPages = ceil(filteredCount / 10)\<close>. A page request made while the current page
  is in \<open>[1, totalPages]\<close> (Previous, Next or a numbered button) leaves it there.
  Previous never gives a page below 1 and Next never gives a page above
  \<open>totalPages\<close>; nothing bounds Previous from above.
\<close>

theorem paged_window_and_requests_from_in_range_page:
  "(1 \<le> p \<and> p \<le> totalPages fs \<longrightarrow>
      int (length (paginatedData fs p)) =
        min ITEMS_PER_PAGE (int (length fs) - (p - 1) * ITEMS_PER_PAGE)) \<and>
   ITEMS_PER_PAGE = 10 \<and>
   totalPages fs = \<lceil>real (length fs) / 10\<rceil> \<and>
   (1 \<le> currentPage s \<and> currentPage s \<le> totalPages (visibleCertificates rt s) \<longrightarrow>
      1 \<le> currentPage (clickPrevious rt s) \<and>
      currentPage (clickPrevious rt s) \<le> totalPages (visibleCertificates rt (clickPrevious rt s)) \<and>
      1 \<le> currentPage (clickNext rt s) \<and>
      currentPage (clickNext rt s) \<le> totalPages (visibleCertificates rt (clickNext rt s)) \<and>
      1 \<le> currentPage (clickPage rt i s) \<and>
      currentPage (clickPage rt i s) \<le> totalPages (visibleCertificates rt (clickPage rt i s))) \<and>
   1 \<le> previousPage q \<and> nextPage tp q \<le> tp"
proof -
  have "1 \<le> previousPage q" "nextPage tp q \<le> tp"
    by (simp_all add: previousPage_def nextPage_def)
  moreover have "totalPages fs = \<lceil>real (length fs) / 10\<rceil>"
    by (simp add: totalPages_def ITEMS_PER_PAGE_def)
  ultimately show ?thesis
    using length_paginatedData [of p fs] clickPrevious_in_range [of s rt]
      clickNext_in_range [of s rt] clickPage_in_range [of s rt i]
    by (simp add: ITEMS_PER_PAGE_def)
qed

theorem paged_window_witness:
  "int (length (paginatedData manyCertificates 4)) = 1 \<and>
   int (length (paginatedData manyCertificates 2)) = 10 \<and>
   totalPages manyCertificates = 4 \<and>
   totalPages (visibleCertificates manyRuntime (loadedPage\<lparr>currentPage := 4\<rparr>)) = 4 \<and>
   currentPage (clickPrevious manyRuntime (loadedPage\<lparr>currentPage := 4\<rparr>)) = 3 \<and>
   currentPage (clickNext manyRuntime (loadedPage\<lparr>currentPage := 4\<rparr>)) = 4 \<and>
   currentPage (clickPage manyRuntime 2 (loadedPage\<lparr>currentPage := 4\<rparr>)) = 4 \<and>
   currentPage (clickPage manyRuntime 1 (loadedPage\<lparr>currentPage := 4\<rparr>)) = 4 \<and>
   currentPage (clickPage manyRuntime 0 (loadedPage\<lparr>currentPage := 4\<rparr>)) = 3"
proof -
  let ?s = "loadedPage\<lparr>currentPage := 4\<rparr>"
  have tp: "totalPages manyCertificates = 4"
    by (simp add: totalPages_div length_many)
  have tpv: "totalPages (visibleCertificates manyRuntime ?s) = 4"
    by (simp add: totalPages_all loadedPage_fields)
  have tpl: "totalPages (visibleCertificates manyRuntime loadedPage) = 4"
    by (simp add: totalPages_all loadedPage_fields)
  have shown: "paginationShown manyRuntime ?s"
    by (simp add: paginationShown_def tpl loadedPage_fields)
  have clicks: "currentPage (clickPrevious manyRuntime ?s) = 3" "currentPage (clickNext manyRuntime ?s) = 4"
    "currentPage (clickPage manyRuntime 2 ?s) = 4" "currentPage (clickPage manyRuntime 1 ?s) = 4"
    "currentPage (clickPage manyRuntime 0 ?s) = 3"
    using shown tpl
    by (simp_all add: clickPrevious_def clickNext_def clickPage_def previousPage_def nextPage_def
        buttonPage_def Let_def)
  have "int (length (paginatedData manyCertificates 4)) = 1"
    using paged_window_and_requests_from_in_range_page [of 4 manyCertificates ?s manyRuntime 0 4 4] tp
    by (simp add: length_many)
  moreover have "int (length (paginatedData manyCertificates 2)) = 10"
    using paged_window_and_requests_from_in_range_page [of 2 manyCertificates ?s manyRuntime 0 4 4] tp
    by (simp add: length_many)
  ultimately show ?thesis
    using tp tpl clicks by simp
qed

text \<open>
  The claim as stated fails on a stale page: on page 4 of 4, the domain filter leaves 11
  records and 2 pages, and Previous then requests page 3, which is shown empty.
\<close>

theorem stale_page_counterexample:
  "currentPage (certRun manyRuntime staleEvents (mountCertificatesPage Map.empty Map.empty)) = 3 \<and>
   totalPages (visibleCertificates manyRuntime
     (certRun manyRuntime staleEvents (mountCertificatesPage Map.empty Map.empty))) = 2 \<and>
   \<not> currentPage (certRun manyRuntime staleEvents (mountCertificatesPage Map.empty Map.empty))
       \<le> totalPages (visibleCertificates manyRuntime
            (certRun manyRuntime staleEvents (mountCertificatesPage Map.empty Map.empty))) \<and>
   length (visibleCertificates manyRuntime
     (certRun manyRuntime staleEvents (mountCertificatesPage Map.empty Map.empty))) = 11 \<and>
   CertificatesPage manyRuntime
     (certRun manyRuntime staleEvents (mountCertificatesPage Map.empty Map.empty)) = Page []"
proof -
  let ?s = "loadedPage\<lparr>currentPage := 3, filterDomain := ''a.com''\<rparr>"
  have tp: "totalPages (visibleCertificates manyRuntime ?s) = 2"
    by (simp add: totalPages_a loadedPage_fields)
  have len: "length (visibleCertificates manyRuntime ?s) = 11"
    by (simp add: length_visible loadedPage_fields searchCertificates_def filterByDomain_def filter_many)
  have "paginatedData (visibleCertificates manyRuntime ?s) 3 = []"
    by (simp add: paginatedData_def ITEMS_PER_PAGE_def Let_def slice_beyond len)
  then have "CertificatesPage manyRuntime ?s = Page []"
    by (simp add: CertificatesPage_def loadedPage_fields)
  with tp len show ?thesis
    by (simp add: stale_run)
qed


section \<open>Malformed cache entries (C1)\<close>



lemma loadData_Absent:
  "readCache rt key s = Absent \<Longrightarrow> loadData rt now Stored key s = publish rt now key s"
  by (simp add: loadData_def cachePreview_def afterAwait_def)

lemma loadData_Hit:
  "readCache rt key s = Hit e \<Longrightarrow>
   loadData rt now Stored key s = publish rt now key (s\<lparr>dataset := data e, loading := False\<rparr>)"
  by (simp add: loadData_def cachePreview_def afterAwait_def)

lemma publish_fields:
  "dataset (publish rt now key s) = fixture rt" "\<not> loading (publish rt now key s)"
  "\<not> error (publish rt now key s)"
  "cachedData (publish rt now key s) = (cachedData s)(key \<mapsto> fixture rt)"
  "localStorage (publish rt now key s) =
     (localStorage s)(''cache_'' @ key \<mapsto> JSON_stringify rt \<lparr>data = fixture rt, timestamp = now\<rparr>)"
  by (simp_all add: publish_def setCachedData_def)

lemma example_parse:
  "JSON_parse exampleRuntime ''{broken'' = None"
  "JSON_parse exampleRuntime exampleText = Some \<lparr>data = [c1, c2], timestamp = exampleNow\<rparr>"
  "exampleText \<noteq> []"
  "JSON_stringify exampleRuntime \<lparr>data = [c1, c2], timestamp = exampleNow\<rparr> = exampleText"
  by (simp_all add: exampleRuntime_simps) (simp_all add: exampleText_literal)






section \<open>Cache round trip (C8)\<close>

text \<open>
  C8. For every key and every dataset that JSON serialises (the text of its cache entry is
  not empty and parses back to the entry), \<open>setCachedData\<close> at time \<open>now\<close> followed
  by the read of the loader gives the entry with the same data and the timestamp \<open>now\<close>,
  which is not earlier than the call; the preview step publishes this data, and the in-memory
  mirror holds it under the key.
\<close>

theorem cache_round_trip:
  "JSON_stringify rt \<lparr>data = d, timestamp = now\<rparr> \<noteq> [] \<and>
   JSON_parse rt (JSON_stringify rt \<lparr>data = d, timestamp = now\<rparr>) = Some \<lparr>data = d, timestamp = now\<rparr> \<longrightarrow>
     readCache rt key (setCachedData rt now key d s) = Hit \<lparr>data = d, timestamp = now\<rparr> \<and>
     (\<exists>e. readCache rt key (setCachedData rt now key d s) = Hit e \<and> data e = d \<and> now \<le> timestamp e) \<and>
     cachePreview rt key (setCachedData rt now key d s) =
       Inr ((setCachedData rt now key d s)\<lparr>dataset := d, loading := False\<rparr>) \<and>
     cachedData (setCachedData rt now key d s) key = Some d"
  by (simp add: readCache_def cachePreview_def setCachedData_def)

theorem cache_round_trip_witness:
  "readCache exampleRuntime ''certificates''
     (setCachedData exampleRuntime exampleNow ''certificates'' [c1, c2] freshPage) =
     Hit \<lparr>data = [c1, c2], timestamp = exampleNow\<rparr> \<and>
   localStorage (setCachedData exampleRuntime exampleNow ''certificates'' [c1, c2] freshPage)
     ''cache_certificates'' = Some exampleText \<and>
   cachedData (setCachedData exampleRuntime exampleNow ''certificates'' [c1, c2] freshPage)
     ''certificates'' = Some [c1, c2]"
proof -
  have codec: "JSON_stringify exampleRuntime \<lparr>data = [c1, c2], timestamp = exampleNow\<rparr> \<noteq> [] \<and>
     JSON_parse exampleRuntime (JSON_stringify exampleRuntime \<lparr>data = [c1, c2], timestamp = exampleNow\<rparr>)
       = Some \<lparr>data = [c1, c2], timestamp = exampleNow\<rparr>"
    by (simp add: example_parse)
  have "localStorage (setCachedData exampleRuntime exampleNow ''certificates'' [c1, c2] freshPage)
     ''cache_certificates'' = Some exampleText"
    by (simp add: setCachedData_def example_parse)
  then show ?thesis
    using cache_round_trip [of exampleRuntime "[c1, c2]" exampleNow "''certificates''" freshPage] codec
    by blast
qed


section \<open>Failure of the load after the preview (C4)\<close>

lemma finishLoad_QuotaExceeded:
  "finishLoad rt now QuotaExceeded key s =
     s\<lparr>dataset := fixture rt, cachedData := (cachedData s)(key \<mapsto> fixture rt),
       error := True, loading := False\<rparr>"
  by (simp add: finishLoad_def afterAwait_def onFailure_def setCachedDataThrown_def)

lemma loadData_QuotaExceeded:
  assumes "readCache rt key s \<noteq> Malformed"
  shows "loadData rt now QuotaExceeded key s =
     s\<lparr>dataset := fixture rt, cachedData := (cachedData s)(key \<mapsto> fixture rt),
       error := True, loading := False\<rparr>"
  using assms
  by (cases "readCache rt key s")
     (simp_all add: loadData_def cachePreview_def afterAwait_def onFailure_def setCachedDataThrown_def)

lemma localStorage_loadData_QuotaExceeded:
  "localStorage (loadData rt now QuotaExceeded key s) = localStorage s"
  by (cases "readCache rt key s")
     (simp_all add: loadData_def cachePreview_def afterAwait_def onFailure_def setCachedDataThrown_def)

lemma error_loadData:
  "error (loadData rt now outcome key s) \<longleftrightarrow> outcome = QuotaExceeded \<or> readCache rt key s = Malformed"
  by (cases "readCache rt key s"; cases outcome)
     (simp_all add: loadData_def cachePreview_def afterAwait_def onFailure_def setCachedDataThrown_def
        publish_def setCachedData_def)

lemma loading_loadData: "\<not> loading (loadData rt now outcome key s)"
  by (cases "readCache rt key s"; cases outcome)
     (simp_all add: loadData_def cachePreview_def afterAwait_def onFailure_def setCachedDataThrown_def
        publish_def setCachedData_def)

lemma error_hides_rows: "error s \<Longrightarrow> CertificatesPage rt s \<noteq> Page rows"
  by (simp add: CertificatesPage_def)

lemma cachedPage_fields:
  "filterDomain cachedPage = ''all''" "searchTerm cachedPage = []" "sortBy cachedPage = ''expiryDate''"
  "currentPage cachedPage = 1" "certificates cachedPage = []" "loading cachedPage" "\<not> error cachedPage"
  "localStorage cachedPage = Map.empty(''cache_certificates'' \<mapsto> exampleText)"
  by (simp_all add: cachedPage_def mountCertificatesPage_def)

lemma staleRuntime_simps:
  "getTime staleRuntime = exampleGetTime" "fixture staleRuntime = [c1, c2, c3]"
  "JSON_parse staleRuntime exampleText = Some \<lparr>data = [c1, c2], timestamp = exampleNow\<rparr>"
  by (simp_all add: staleRuntime_def tableRuntime_def exampleText_def)

lemma cachedPage_read:
  "readCache staleRuntime ''certificates'' cachedPage = Hit \<lparr>data = [c1, c2], timestamp = exampleNow\<rparr>"
  by (simp add: readCache_def cachedPage_fields staleRuntime_simps) (simp add: exampleText_literal)

lemma visible_stale:
  assumes "filterDomain s = ''all''" "searchTerm s = []" "sortBy s = ''expiryDate''"
    "certificates s = [c1, c2, c3]"
  shows "visibleCertificates staleRuntime s = [c2, c1, c3]"
  using assms
  by (simp add: visibleCertificates_def filteredAndSorted_def filterByDomain_def searchCertificates_def
      sort_js_def sortCompare_def compareCertificates_def c1_def c2_def c3_def staleRuntime_simps
      exampleGetTime_def)

lemma paginated_stale: "paginatedData [c2, c1, c3] 1 = [c2, c1, c3]"
  by (simp add: paginatedData_def slice_def ITEMS_PER_PAGE_def Let_def)

text \<open>
  C4, amended. The timer that stands for the acquisition cannot fail; a load fails exactly
  when its cache entry is malformed or its storage write throws. When the write throws,
  that is when the load fails after the cache preview, the loader sets the error flag and
  clears the loading flag; the fixture has been published before the write and replaces
  the cached preview in the state, the in-memory mirror holds it, and the storage is
  unchanged. The page renders no rows while the error flag is set: after such a load it
  returns the error display alone.
\<close>

theorem failed_write_sets_error_and_page_shows_error_alone:
  "(error (loadData rt now outcome key s) \<longleftrightarrow>
      outcome = QuotaExceeded \<or> readCache rt key s = Malformed) \<and>
   \<not> loading (loadData rt now outcome key s) \<and>
   finishLoad rt now QuotaExceeded key s =
     s\<lparr>dataset := fixture rt, cachedData := (cachedData s)(key \<mapsto> fixture rt),
       error := True, loading := False\<rparr> \<and>
   (readCache rt key s \<noteq> Malformed \<longrightarrow>
      loadData rt now QuotaExceeded key s =
        s\<lparr>dataset := fixture rt, cachedData := (cachedData s)(key \<mapsto> fixture rt),
          error := True, loading := False\<rparr>) \<and>
   localStorage (loadData rt now QuotaExceeded key s) = localStorage s \<and>
   (error sc \<longrightarrow> CertificatesPage rtc sc \<noteq> Page rows) \<and>
   CertificatesPage rtc (loadData rtc now QuotaExceeded ''certificates'' sc) = ErrorDisplay"
proof -
  have "error (loadData rtc now QuotaExceeded ''certificates'' sc)"
    by (simp add: error_loadData)
  moreover have "\<not> loading (loadData rtc now QuotaExceeded ''certificates'' sc)"
    by (rule loading_loadData)
  ultimately have "CertificatesPage rtc (loadData rtc now QuotaExceeded ''certificates'' sc) = ErrorDisplay"
    by (simp add: CertificatesPage_def)
  then show ?thesis
    using error_loadData [of rt now outcome key s] loading_loadData [of rt now outcome key s]
      finishLoad_QuotaExceeded [of rt now key s] loadData_QuotaExceeded [of rt key s now]
      localStorage_loadData_QuotaExceeded [of rt now key s] error_hides_rows [of sc rtc rows]
    by blast
qed

theorem failed_write_witness:
  "error (loadData staleRuntime exampleNow QuotaExceeded ''certificates'' cachedPage) \<and>
   \<not> loading (loadData staleRuntime exampleNow QuotaExceeded ''certificates'' cachedPage) \<and>
   certificates (loadData staleRuntime exampleNow QuotaExceeded ''certificates'' cachedPage)
     = [c1, c2, c3] \<and>
   cachedData (loadData staleRuntime exampleNow QuotaExceeded ''certificates'' cachedPage)
     ''certificates'' = Some [c1, c2, c3] \<and>
   localStorage (loadData staleRuntime exampleNow QuotaExceeded ''certificates'' cachedPage)
     ''cache_certificates'' = Some exampleText \<and>
   \<not> error (loadData staleRuntime exampleNow Stored ''certificates'' cachedPage) \<and>
   CertificatesPage staleRuntime
     (loadData staleRuntime exampleNow QuotaExceeded ''certificates'' cachedPage) \<noteq> Page [c2, c1, c3] \<and>
   CertificatesPage staleRuntime
     (loadData staleRuntime exampleNow QuotaExceeded ''certificates'' cachedPage) = ErrorDisplay"
proof -
  let ?s = "loadData staleRuntime exampleNow QuotaExceeded ''certificates'' cachedPage"
  note inst = failed_write_sets_error_and_page_shows_error_alone
      [of staleRuntime exampleNow _ "''certificates''" cachedPage]
  note shown = failed_write_sets_error_and_page_shows_error_alone
      [where rt = staleRuntime and now = exampleNow and outcome = QuotaExceeded
         and key = "''certificates''" and s = cachedPage and sc = ?s and rtc = staleRuntime
         and rows = "[c2, c1, c3]"]
  note display = failed_write_sets_error_and_page_shows_error_alone
      [where rt = staleRuntime and now = exampleNow and outcome = QuotaExceeded
         and key = "''certificates''" and s = cachedPage and sc = cachedPage and rtc = staleRuntime]
  have ok: "readCache staleRuntime ''certificates'' cachedPage \<noteq> Malformed"
    by (simp add: cachedPage_read)
  have eq: "loadData staleRuntime exampleNow QuotaExceeded ''certificates'' cachedPage =
      cachedPage\<lparr>dataset := fixture staleRuntime,
        cachedData := (cachedData cachedPage)(''certificates'' \<mapsto> fixture staleRuntime),
        error := True, loading := False\<rparr>"
    using inst [of QuotaExceeded] ok by blast
  have stored: "\<not> error (loadData staleRuntime exampleNow Stored ''certificates'' cachedPage)"
    using inst [of Stored] ok by blast
  have "error ?s"
    using inst [of QuotaExceeded] by blast
  with shown have hidden: "CertificatesPage staleRuntime ?s \<noteq> Page [c2, c1, c3]"
    by blast
  from display have alone: "CertificatesPage staleRuntime ?s = ErrorDisplay"
    by blast
  have fields: "certificates ?s = [c1, c2, c3]" "cachedData ?s ''certificates'' = Some [c1, c2, c3]"
    "localStorage ?s ''cache_certificates'' = Some exampleText"
    by (simp_all add: eq staleRuntime_simps cachedPage_fields)
  have flags: "error ?s" "\<not> loading ?s"
    by (simp_all add: eq)
  show ?thesis
    using fields flags stored hidden alone by blast
qed

text \<open>
  The claim as stated fails when the storage is full. The load previews the cached
  \<open>[c1, c2]\<close>, publishes the fixture \<open>[c1, c2, c3]\<close> and fails at the write: the
  published data is not the preview any more, and the page shows the error display instead
  of the rows it shows without the flag.
\<close>

theorem failed_write_replaces_and_hides_preview_counterexample:
  "certificates (beginLoad staleRuntime ''certificates'' cachedPage) = [c1, c2] \<and>
   certificates (loadData staleRuntime exampleNow QuotaExceeded ''certificates'' cachedPage)
     = [c1, c2, c3] \<and>
   error (loadData staleRuntime exampleNow QuotaExceeded ''certificates'' cachedPage) \<and>
   CertificatesPage staleRuntime
     (loadData staleRuntime exampleNow QuotaExceeded ''certificates'' cachedPage) = ErrorDisplay \<and>
   CertificatesPage staleRuntime
     ((loadData staleRuntime exampleNow QuotaExceeded ''certificates'' cachedPage)\<lparr>error := False\<rparr>)
     = Page [c2, c1, c3]"
proof -
  let ?s = "loadData staleRuntime exampleNow QuotaExceeded ''certificates'' cachedPage"
  have s: "?s = cachedPage\<lparr>dataset := [c1, c2, c3],
        cachedData := (cachedData cachedPage)(''certificates'' \<mapsto> [c1, c2, c3]),
        error := True, loading := False\<rparr>"
    using loadData_QuotaExceeded [of staleRuntime "''certificates''" cachedPage exampleNow]
    by (simp add: cachedPage_read staleRuntime_simps)
  have one: "certificates (beginLoad staleRuntime ''certificates'' cachedPage) = [c1, c2]"
    by (simp add: beginLoad_def cachePreview_def cachedPage_read)
  have "visibleCertificates staleRuntime (?s\<lparr>error := False\<rparr>) = [c2, c1, c3]"
    by (rule visible_stale) (simp_all add: s cachedPage_fields)
  then have two: "CertificatesPage staleRuntime (?s\<lparr>error := False\<rparr>) = Page [c2, c1, c3]"
    by (simp add: CertificatesPage_def s cachedPage_fields paginated_stale)
  have three: "CertificatesPage staleRuntime ?s = ErrorDisplay"
    by (simp add: CertificatesPage_def s)
  have four: "certificates ?s = [c1, c2, c3]" "error ?s"
    by (simp_all add: s)
  show ?thesis
    using one two three four by blast
qed


section \<open>Local edit commit (C9)\<close>

lemma map_replace_distinct:
  assumes "distinct (map f xs)" "i < length xs" "f (xs ! i) = k"
  shows "map (\<lambda>c. if f c = k then e else c) xs = xs[i := e]"
proof (rule nth_equalityI)
  show "length (map (\<lambda>c. if f c = k then e else c) xs) = length (xs[i := e])" by simp
next
  fix j assume "j < length (map (\<lambda>c. if f c = k then e else c) xs)"
  then have j: "j < length xs" by simp
  show "map (\<lambda>c. if f c = k then e else c) xs ! j = xs[i := e] ! j"
  proof (cases "j = i")
    case True
    then show ?thesis using assms by simp
  next
    case False
    have "f (xs ! j) \<noteq> f (xs ! i)"
      using assms(1,2) j False by (simp add: distinct_conv_nth)
    then show ?thesis using j False assms(3) by simp
  qed
qed

lemma saveChanges_frame:
  "localStorage (saveChanges s) = localStorage s" "cachedData (saveChanges s) = cachedData s"
  "loading (saveChanges s) = loading s" "error (saveChanges s) = error s"
  by (simp_all add: saveChanges_def split: option.splits)

lemma readCache_saveChanges: "readCache rt key (saveChanges s) = readCache rt key s"
  by (simp add: readCache_def saveChanges_frame)

lemma dataset_loadData_Stored:
  "dataset (loadData rt now Stored key s) =
     (case readCache rt key s of Malformed \<Rightarrow> dataset s | Absent \<Rightarrow> fixture rt | Hit e \<Rightarrow> fixture rt)"
  by (simp add: loadData_def cachePreview_def afterAwait_def onFailure_def publish_fields
      split: cache_read.splits)

lemma dataset_mount: "certificates (mountCertificatesPage m st) = []"
  by (simp add: mountCertificatesPage_def)

lemma shownPage_eq: "shownPage = publish exampleRuntime exampleNow ''certificates'' freshPage"
  unfolding shownPage_def
  by (rule loadData_Absent) (simp add: readCache_def freshPage_def mountCertificatesPage_def)

lemma shownPage_fields:
  "certificates shownPage = [c1, c2]"
  "localStorage shownPage = Map.empty(''cache_certificates'' \<mapsto> exampleText)"
  "cachedData shownPage = Map.empty(''certificates'' \<mapsto> [c1, c2])"
  "editingCert shownPage = None"
  by (simp_all add: shownPage_eq publish_fields exampleRuntime_simps freshPage_def mountCertificatesPage_def
      publish_def setCachedData_def)

lemma example_ids:
  "cert_id c1 = ''c1''" "cert_id c2 = ''c2''" "name c1 = []" "name c2 = []"
  by (simp_all add: c1_def c2_def)

lemma draft_fields:
  "editingCert (typeName ''renamed'' (startEdit c1 shownPage)) = Some (c1\<lparr>name := ''renamed''\<rparr>)"
  "certificates (typeName ''renamed'' (startEdit c1 shownPage)) = [c1, c2]"
  "localStorage (typeName ''renamed'' (startEdit c1 shownPage)) = localStorage shownPage"
  by (simp_all add: typeName_def startEdit_def shownPage_fields)

text \<open>
  C9. The commit of the edit drawer replaces the records whose identifier is the draft's
  by the draft, which is exactly one record, at its position, when the identifiers are
  distinct. It changes neither \<open>localStorage\<close> nor the in-memory mirror. A freshly
  mounted page loads the same state whether or not the commit happened before, and its
  dataset after the load holds no name that is not a name of the fixture; a load that runs
  on the edited page itself past a cache entry that is not malformed publishes the fixture.
\<close>

theorem local_edit_is_lost_on_load:
  "(editingCert s = Some e \<longrightarrow>
      certificates (saveChanges s) =
        map (\<lambda>c. if cert_id c = cert_id e then e else c) (certificates s)) \<and>
   (editingCert s = Some e \<and> distinct (map cert_id (certificates s)) \<and>
    i < length (certificates s) \<and> cert_id (certificates s ! i) = cert_id e \<longrightarrow>
      certificates (saveChanges s) = (certificates s)[i := e]) \<and>
   localStorage (saveChanges s) = localStorage s \<and>
   cachedData (saveChanges s) = cachedData s \<and>
   loadData rt now outcome ''certificates'' (mountCertificatesPage m (localStorage (saveChanges s))) =
     loadData rt now outcome ''certificates'' (mountCertificatesPage m (localStorage s)) \<and>
   (v \<notin> set (map name (fixture rt)) \<longrightarrow>
      v \<notin> set (map name (certificates
        (loadData rt now Stored ''certificates'' (mountCertificatesPage m (localStorage (saveChanges s))))))) \<and>
   (readCache rt ''certificates'' s \<noteq> Malformed \<longrightarrow>
      certificates (loadData rt now Stored ''certificates'' (saveChanges s)) = fixture rt)"
proof (intro conjI impI)
  assume "editingCert s = Some e"
  then show "certificates (saveChanges s) =
      map (\<lambda>c. if cert_id c = cert_id e then e else c) (certificates s)"
    by (simp add: saveChanges_def)
next
  assume a: "editingCert s = Some e \<and> distinct (map cert_id (certificates s)) \<and>
    i < length (certificates s) \<and> cert_id (certificates s ! i) = cert_id e"
  then have "certificates (saveChanges s) =
      map (\<lambda>c. if cert_id c = cert_id e then e else c) (certificates s)"
    by (simp add: saveChanges_def)
  also have "\<dots> = (certificates s)[i := e]"
    using a by (intro map_replace_distinct) simp_all
  finally show "certificates (saveChanges s) = (certificates s)[i := e]" .
next
  show "localStorage (saveChanges s) = localStorage s" "cachedData (saveChanges s) = cachedData s"
    by (simp_all add: saveChanges_frame)
next
  show "loadData rt now outcome ''certificates'' (mountCertificatesPage m (localStorage (saveChanges s))) =
     loadData rt now outcome ''certificates'' (mountCertificatesPage m (localStorage s))"
    by (simp add: saveChanges_frame)
next
  assume "v \<notin> set (map name (fixture rt))"
  then show "v \<notin> set (map name (certificates
        (loadData rt now Stored ''certificates'' (mountCertificatesPage m (localStorage (saveChanges s))))))"
    by (simp add: dataset_loadData_Stored dataset_mount split: cache_read.splits)
next
  assume "readCache rt ''certificates'' s \<noteq> Malformed"
  then show "certificates (loadData rt now Stored ''certificates'' (saveChanges s)) = fixture rt"
    by (simp add: dataset_loadData_Stored readCache_saveChanges split: cache_read.splits)
qed

theorem local_edit_witness:
  "certificates renamedPage = [c1\<lparr>name := ''renamed''\<rparr>, c2] \<and>
   localStorage renamedPage = Map.empty(''cache_certificates'' \<mapsto> exampleText) \<and>
   map name (certificates renamedPage) = [''renamed'', []] \<and>
   certificates (loadData exampleRuntime exampleNow Stored ''certificates'' renamedPage) = [c1, c2] \<and>
   ''renamed'' \<notin> set (map name (certificates (loadData exampleRuntime exampleNow Stored ''certificates''
       (mountCertificatesPage Map.empty (localStorage renamedPage)))))"
proof -
  let ?s = "typeName ''renamed'' (startEdit c1 shownPage)"
  let ?e = "c1\<lparr>name := ''renamed''\<rparr>"
  note inst = local_edit_is_lost_on_load [of ?s ?e 0 exampleRuntime exampleNow Stored Map.empty "''renamed''"]
  have pre: "editingCert ?s = Some ?e \<and> distinct (map cert_id (certificates ?s)) \<and>
      0 < length (certificates ?s) \<and> cert_id (certificates ?s ! 0) = cert_id ?e"
    by (simp add: draft_fields example_ids)
  have fresh: "''renamed'' \<notin> set (map name (fixture exampleRuntime))"
    by (simp add: exampleRuntime_simps example_ids)
  have ok: "readCache exampleRuntime ''certificates'' ?s \<noteq> Malformed"
    by (simp add: readCache_def draft_fields shownPage_fields example_parse)
  have r: "renamedPage = saveChanges ?s"
    by (simp add: renamedPage_def)
  have "certificates (saveChanges ?s) = (certificates ?s)[0 := ?e]"
    using inst pre by blast
  then have one: "certificates renamedPage = [?e, c2]"
    by (simp add: r draft_fields)
  have "localStorage (saveChanges ?s) = localStorage ?s"
    using inst by blast
  then have two: "localStorage renamedPage = Map.empty(''cache_certificates'' \<mapsto> exampleText)"
    by (simp add: r draft_fields shownPage_fields)
  have "certificates (loadData exampleRuntime exampleNow Stored ''certificates'' (saveChanges ?s)) =
      fixture exampleRuntime"
    using inst ok by blast
  then have three: "certificates (loadData exampleRuntime exampleNow Stored ''certificates'' renamedPage) = [c1, c2]"
    by (simp add: r exampleRuntime_simps)
  have four: "''renamed'' \<notin> set (map name (certificates (loadData exampleRuntime exampleNow Stored ''certificates''
       (mountCertificatesPage Map.empty (localStorage renamedPage)))))"
    using inst fresh unfolding r by blast
  have five: "map name [?e, c2] = [''renamed'', []]"
    by (simp add: example_ids)
  have six: "map name (certificates renamedPage) = [''renamed'', []]"
    by (simp only: one five)
  show ?thesis
    using one two three four six by blast
qed


section \<open>Incremental reveal (C2)\<close>

lemma displayedCount_loadData [simp]:
  "displayedCount (loadData rt now outcome key s) = displayedCount s"
  "displayedCount (beginLoad rt key s) = displayedCount s"
  "displayedCount (finishLoad rt now outcome key s) = displayedCount s"
  by (simp_all add: loadData_def beginLoad_def finishLoad_def cachePreview_def afterAwait_def
      onFailure_def publish_def setCachedData_def setCachedDataThrown_def
      split: cache_read.splits storage_write.splits)

lemma filteredLogs_displayedCount [simp]:
  "filteredLogs rt (s\<lparr>displayedCount := n\<rparr>) = filteredLogs rt s"
  by (simp add: filteredLogs_def)

lemma onIntersect_exact:
  "onIntersect rt b s =
     (if b \<and> \<not> loading s \<and> displayedCount s < int (length (filteredLogs rt s))
      then s\<lparr>displayedCount := min (displayedCount s + 10) (int (length (filteredLogs rt s)))\<rparr>
      else s)"
  by (simp add: onIntersect_def loadMore_def ITEMS_PER_LOAD_def)

lemma onIntersect_mono: "displayedCount s \<le> displayedCount (onIntersect rt b s)"
  by (simp add: onIntersect_exact)

lemma auditStep_mono: "displayedCount s \<le> displayedCount (auditStep rt ev s)"
  by (cases ev) (simp_all add: onIntersect_mono toggleRow_def)

lemma auditRun_mono: "displayedCount s \<le> displayedCount (auditRun rt evs s)"
proof (induction evs arbitrary: s)
  case Nil
  show ?case by (simp add: auditRun_def)
next
  case (Cons ev evs)
  have "displayedCount s \<le> displayedCount (auditStep rt ev s)"
    by (rule auditStep_mono)
  also have "\<dots> \<le> displayedCount (auditRun rt evs (auditStep rt ev s))"
    by (rule Cons.IH)
  finally show ?case by (simp add: auditRun_def)
qed

lemma beginLoad_Hit:
  assumes "readCache rt key s = Hit e"
  shows "beginLoad rt key s = s\<lparr>dataset := data e, loading := False\<rparr>"
  using assms by (simp add: beginLoad_def cachePreview_def)

lemma slice_from_zero:
  "0 \<le> n \<Longrightarrow> slice xs 0 n = take (nat n) xs"
  by (simp add: slice_def Let_def min_def)

lemma slice_zero_prefix: "prefix (slice xs 0 n) xs"
  by (simp add: slice_def Let_def take_is_prefix)

lemma displayedLogs_take:
  assumes "0 \<le> displayedCount s"
  shows "displayedLogs rt s =
     take (nat (min (displayedCount s) (int (length (filteredLogs rt s))))) (filteredLogs rt s)"
  using assms by (simp add: displayedLogs_def slice_from_zero min_def)

lemma length_displayedLogs:
  assumes "0 \<le> displayedCount s"
  shows "int (length (displayedLogs rt s)) = min (displayedCount s) (int (length (filteredLogs rt s)))"
  using assms by (simp add: displayedLogs_take)

lemma length_displayedLogs_le: "length (displayedLogs rt s) \<le> length (filteredLogs rt s)"
  using slice_zero_prefix [of "filteredLogs rt s" "displayedCount s"]
  by (simp add: displayedLogs_def prefix_length_le)

lemma logsRuntime_simps:
  "fixture logsRuntime = manyLogs"
  "JSON_parse logsRuntime (entryText (map logText manyLogs)) =
     Some \<lparr>data = manyLogs, timestamp = exampleNow\<rparr>"
  by (simp_all add: logsRuntime_def tableRuntime_def)

lemma loadedLogs_eq:
  "finishLoad logsRuntime exampleNow Stored ''auditLogs''
     (beginLoad logsRuntime ''auditLogs'' (mountAuditLogsPage Map.empty Map.empty)) = loadedLogs"
  by (simp add: beginLoad_def finishLoad_def cachePreview_def readCache_def mountAuditLogsPage_def
      afterAwait_def publish_def logsRuntime_simps setCachedData_def loadedLogs_def)

lemma loadedLogs_fields:
  "logs loadedLogs = manyLogs" "\<not> loading loadedLogs" "\<not> error loadedLogs"
  "filterAction loadedLogs = ''all''" "logSearchTerm loadedLogs = []"
  "rangeFrom loadedLogs = None" "rangeTo loadedLogs = None" "displayedCount loadedLogs = 10"
  by (simp_all add: loadedLogs_def setCachedData_def mountAuditLogsPage_def ITEMS_PER_LOAD_def)

lemma cachedLogsPage_fields:
  "logs cachedLogsPage = []" "loading cachedLogsPage" "\<not> error cachedLogsPage"
  "filterAction cachedLogsPage = ''all''" "logSearchTerm cachedLogsPage = []"
  "rangeFrom cachedLogsPage = None" "rangeTo cachedLogsPage = None"
  "displayedCount cachedLogsPage = 10"
  by (simp_all add: cachedLogsPage_def mountAuditLogsPage_def ITEMS_PER_LOAD_def)

lemma cachedLogsPage_read:
  "readCache logsRuntime ''auditLogs'' cachedLogsPage = Hit \<lparr>data = manyLogs, timestamp = exampleNow\<rparr>"
proof -
  have "entryText (map logText manyLogs) \<noteq> []"
    by (simp add: entryText_def)
  then show ?thesis
    by (simp add: readCache_def cachedLogsPage_def mountAuditLogsPage_def logsRuntime_simps)
qed

lemma actionType_many: "actionType (aLog i) = ''KEY_ROTATED''" "actionType (bLog i) = ''SSH_LOGIN''"
  by (simp_all add: aLog_def bLog_def l1_def l2_def)

lemma filter_manyLogs: "filter (\<lambda>l. actionType l = ''SSH_LOGIN'') manyLogs = map bLog [0..<10]"
  by (simp add: manyLogs_def filter_map comp_def actionType_many)

lemma filteredLogs_all:
  assumes "logs s = manyLogs" "filterAction s = ''all''" "logSearchTerm s = []"
    "rangeFrom s = None" "rangeTo s = None"
  shows "filteredLogs rt s = manyLogs"
  using assms by (simp add: filteredLogs_def filterTo_def filterFrom_def searchLogs_def filterByAction_def)

lemma filteredLogs_ssh:
  assumes "logs s = manyLogs" "filterAction s = ''SSH_LOGIN''" "logSearchTerm s = []"
    "rangeFrom s = None" "rangeTo s = None"
  shows "filteredLogs rt s = map bLog [0..<10]"
  using assms
  by (simp add: filteredLogs_def filterTo_def filterFrom_def searchLogs_def filterByAction_def
      filter_manyLogs)

lemma length_manyLogs: "length manyLogs = 25"
  by (simp add: manyLogs_def)

lemma reveal_loaded: "onIntersect logsRuntime True loadedLogs = loadedLogs\<lparr>displayedCount := 20\<rparr>"
  by (simp add: onIntersect_exact filteredLogs_all loadedLogs_fields length_manyLogs)

lemma reveal_run:
  "auditRun logsRuntime revealEvents (mountAuditLogsPage Map.empty Map.empty) =
   loadedLogs\<lparr>displayedCount := 20, filterAction := ''SSH_LOGIN''\<rparr>"
proof -
  have "auditRun logsRuntime revealEvents (mountAuditLogsPage Map.empty Map.empty) =
    (onIntersect logsRuntime True loadedLogs)\<lparr>filterAction := ''SSH_LOGIN''\<rparr>"
    by (simp only: auditRun_def revealEvents_def foldl.simps auditStep.simps loadedLogs_eq)
  then show ?thesis
    by (simp add: reveal_loaded)
qed

lemma inFlight_begin:
  "beginLoad logsRuntime ''auditLogs'' cachedLogsPage =
     cachedLogsPage\<lparr>dataset := manyLogs, loading := False\<rparr>"
  using beginLoad_Hit [OF cachedLogsPage_read] by simp

lemma inFlight_run:
  "auditRun logsRuntime inFlightReveal cachedLogsPage =
     cachedLogsPage\<lparr>dataset := manyLogs, loading := False, displayedCount := 20\<rparr>"
proof -
  let ?p = "cachedLogsPage\<lparr>dataset := manyLogs, loading := False\<rparr>"
  have "auditRun logsRuntime inFlightReveal cachedLogsPage = onIntersect logsRuntime True ?p"
    by (simp only: auditRun_def inFlightReveal_def foldl.simps auditStep.simps inFlight_begin)
  moreover have "filteredLogs logsRuntime ?p = manyLogs"
    by (rule filteredLogs_all) (simp_all add: cachedLogsPage_fields)
  ultimately show ?thesis
    by (simp add: onIntersect_exact cachedLogsPage_fields length_manyLogs)
qed

text \<open>
  C2, amended. Across any sequence of reveal triggers, load steps and filter or search
  changes the revealed count \<open>displayedCount\<close> never decreases. It starts at 10. A
  reveal trigger that fires while the loading flag is clear and the count is below the
  filtered length sets the count to \<open>min(count + 10, filtered length)\<close>; every other
  trigger changes nothing. What gates the trigger is the loading flag, not a load in
  flight: a cache hit clears the flag before the load completes, and triggers are then
  honoured. The number of displayed records never exceeds the filtered length, and is the
  minimum of the count and the filtered length when the count is not negative. The count
  itself is not bounded by the filtered length.
\<close>

theorem revealed_count_grows_and_window_is_clamped:
  "displayedCount s \<le> displayedCount (auditRun rt evs s) \<and>
   displayedCount (mountAuditLogsPage m st) = 10 \<and>
   onIntersect rt b s =
     (if b \<and> \<not> loading s \<and> displayedCount s < int (length (filteredLogs rt s))
      then s\<lparr>displayedCount := min (displayedCount s + 10) (int (length (filteredLogs rt s)))\<rparr>
      else s) \<and>
   (readCache rt ''auditLogs'' s = Hit e \<longrightarrow>
      beginLoad rt ''auditLogs'' s = s\<lparr>dataset := data e, loading := False\<rparr>) \<and>
   length (displayedLogs rt s) \<le> length (filteredLogs rt s) \<and>
   (0 \<le> displayedCount s \<longrightarrow>
      int (length (displayedLogs rt s)) = min (displayedCount s) (int (length (filteredLogs rt s))))"
proof -
  have "displayedCount (mountAuditLogsPage m st) = 10"
    by (simp add: mountAuditLogsPage_def ITEMS_PER_LOAD_def)
  then show ?thesis
    using auditRun_mono [of s rt evs] onIntersect_exact [of rt b s]
      beginLoad_Hit [of rt "''auditLogs''" s e]
      length_displayedLogs_le [of rt s] length_displayedLogs [of s rt]
    by blast
qed

theorem revealed_count_witness:
  "displayedCount (auditRun logsRuntime revealEvents (mountAuditLogsPage Map.empty Map.empty)) = 20 \<and>
   onIntersect logsRuntime True loadedLogs = loadedLogs\<lparr>displayedCount := 20\<rparr> \<and>
   onIntersect logsRuntime True (mountAuditLogsPage Map.empty Map.empty) =
     mountAuditLogsPage Map.empty Map.empty \<and>
   beginLoad logsRuntime ''auditLogs'' cachedLogsPage =
     cachedLogsPage\<lparr>dataset := manyLogs, loading := False\<rparr> \<and>
   displayedCount (auditRun logsRuntime inFlightReveal cachedLogsPage) = 20 \<and>
   int (length (displayedLogs logsRuntime
     (auditRun logsRuntime revealEvents (mountAuditLogsPage Map.empty Map.empty)))) = 10"
proof -
  let ?m = "mountAuditLogsPage Map.empty Map.empty :: audit_page"
  let ?s = "auditRun logsRuntime revealEvents ?m"
  let ?e = "\<lparr>data = manyLogs, timestamp = exampleNow\<rparr>"
  note a = revealed_count_grows_and_window_is_clamped [of ?m logsRuntime "[]" Map.empty Map.empty True ?e]
  note b = revealed_count_grows_and_window_is_clamped [of ?s logsRuntime "[]" Map.empty Map.empty True ?e]
  note c = revealed_count_grows_and_window_is_clamped [of loadedLogs logsRuntime "[]" Map.empty Map.empty True ?e]
  note d = revealed_count_grows_and_window_is_clamped [of cachedLogsPage logsRuntime "[]" Map.empty Map.empty True ?e]
  have run: "displayedCount ?s = 20"
    by (simp add: reveal_run)
  have fl: "filteredLogs logsRuntime ?s = map bLog [0..<10]"
    unfolding reveal_run by (rule filteredLogs_ssh) (simp_all add: loadedLogs_fields)
  have "loading ?m"
    by (simp add: mountAuditLogsPage_def)
  with a have one: "onIntersect logsRuntime True ?m = ?m" by simp
  have "0 \<le> displayedCount ?s" by (simp add: run)
  with b have "int (length (displayedLogs logsRuntime ?s)) =
      min (displayedCount ?s) (int (length (filteredLogs logsRuntime ?s)))"
    by blast
  then have two: "int (length (displayedLogs logsRuntime ?s)) = 10"
    by (simp add: run fl)
  have "filteredLogs logsRuntime loadedLogs = manyLogs"
    by (rule filteredLogs_all) (simp_all add: loadedLogs_fields)
  with c have three: "onIntersect logsRuntime True loadedLogs = loadedLogs\<lparr>displayedCount := 20\<rparr>"
    by (simp add: loadedLogs_fields length_manyLogs)
  from d cachedLogsPage_read
  have four: "beginLoad logsRuntime ''auditLogs'' cachedLogsPage =
      cachedLogsPage\<lparr>dataset := manyLogs, loading := False\<rparr>"
    by simp
  have five: "displayedCount (auditRun logsRuntime inFlightReveal cachedLogsPage) = 20"
    by (simp add: inFlight_run)
  show ?thesis
    using run one two three four five by blast
qed

text \<open>
  The claim as stated fails for the count: on the mounted page it is 10 over an empty list,
  and after a reveal to 20 the action filter leaves 10 records while the count stays 20.
\<close>

theorem revealed_count_exceeds_filtered_length_counterexample:
  "displayedCount (mountAuditLogsPage Map.empty Map.empty) = 10 \<and>
   length (filteredLogs logsRuntime (mountAuditLogsPage Map.empty Map.empty)) = 0 \<and>
   displayedCount (auditRun logsRuntime revealEvents (mountAuditLogsPage Map.empty Map.empty)) = 20 \<and>
   length (filteredLogs logsRuntime
     (auditRun logsRuntime revealEvents (mountAuditLogsPage Map.empty Map.empty))) = 10 \<and>
   \<not> displayedCount (auditRun logsRuntime revealEvents (mountAuditLogsPage Map.empty Map.empty))
       \<le> int (length (filteredLogs logsRuntime
            (auditRun logsRuntime revealEvents (mountAuditLogsPage Map.empty Map.empty))))"
proof -
  let ?m = "mountAuditLogsPage Map.empty Map.empty :: audit_page"
  let ?s = "auditRun logsRuntime revealEvents ?m"
  have one: "displayedCount ?m = 10"
    by (simp add: mountAuditLogsPage_def ITEMS_PER_LOAD_def)
  have "filteredLogs logsRuntime ?m = []"
    by (simp add: filteredLogs_def filterTo_def filterFrom_def searchLogs_def filterByAction_def
        mountAuditLogsPage_def)
  then have two: "length (filteredLogs logsRuntime ?m) = 0"
    by simp
  have three: "displayedCount ?s = 20"
    by (simp add: reveal_run)
  have "filteredLogs logsRuntime ?s = map bLog [0..<10]"
    unfolding reveal_run by (rule filteredLogs_ssh) (simp_all add: loadedLogs_fields)
  then have four: "length (filteredLogs logsRuntime ?s) = 10"
    by simp
  have five: "\<not> displayedCount ?s \<le> int (length (filteredLogs logsRuntime ?s))"
    by (simp add: three four)
  show ?thesis
    using one two three four five by blast
qed


section \<open>The audit logs window (C10)\<close>

lemma filteredLogs_filter: "filteredLogs rt s = filter (keptLog rt s) (logs s)"
proof -
  have a: "filterByAction (filterAction s) xs =
      filter (\<lambda>l. filterAction s = ''all'' \<or> actionType l = filterAction s) xs" for xs
    by (simp add: filterByAction_def)
  have b: "filterFrom rt (rangeFrom s) xs =
      filter (\<lambda>l. case rangeFrom s of None \<Rightarrow> True
         | Some lo \<Rightarrow> (case getTime rt (log_timestamp l) of None \<Rightarrow> False | Some t \<Rightarrow> lo \<le> t)) xs" for xs
    by (cases "rangeFrom s") (simp_all add: filterFrom_def notBefore_def [abs_def])
  have c: "filterTo rt (rangeTo s) xs =
      filter (\<lambda>l. case rangeTo s of None \<Rightarrow> True
         | Some hi \<Rightarrow> (case getTime rt (log_timestamp l) of None \<Rightarrow> False | Some t \<Rightarrow> t \<le> hi)) xs" for xs
    by (cases "rangeTo s") (simp_all add: filterTo_def notAfter_def [abs_def])
  have "keptLog rt s = (\<lambda>l.
     (filterAction s = ''all'' \<or> actionType l = filterAction s) \<and>
     (ci_substring (logSearchTerm s) (actor l) \<or> ci_substring (logSearchTerm s) (targetResource l) \<or>
      ci_substring (logSearchTerm s) (actionType l)) \<and>
     (case rangeFrom s of None \<Rightarrow> True
      | Some lo \<Rightarrow> (case getTime rt (log_timestamp l) of None \<Rightarrow> False | Some t \<Rightarrow> lo \<le> t)) \<and>
     (case rangeTo s of None \<Rightarrow> True
      | Some hi \<Rightarrow> (case getTime rt (log_timestamp l) of None \<Rightarrow> False | Some t \<Rightarrow> t \<le> hi)))"
    by (rule ext) (simp add: keptLog_def)
  then show ?thesis
    unfolding filteredLogs_def a b c searchLogs_filter
    by (simp add: conj_commute conj_left_commute cong: conj_cong)
qed

lemma count_reachable: "10 \<le> displayedCount (auditRun rt evs (mountAuditLogsPage m st))"
  using auditRun_mono [of "mountAuditLogsPage m st" rt evs]
  by (simp add: mountAuditLogsPage_def ITEMS_PER_LOAD_def)

text \<open>
  C10. The audit logs pipeline has no sort stage: the filtered list is the action filter,
  then the search, then the two date bounds, applied to the dataset, which is the dataset
  filtered by the conjunction of the three conditions, in dataset order. The displayed list
  is a prefix of the filtered list and a subsequence of the dataset. It is the first
  \<open>min(displayedCount, filteredCount)\<close> records of the filtered list whenever the count
  is not negative, which holds in every state a run of events reaches from the mounted page.
\<close>

theorem audit_logs_window_is_prefix_in_dataset_order:
  "filteredLogs rt s = filter (keptLog rt s) (logs s) \<and>
   filteredLogs rt s =
     filterTo rt (rangeTo s) (filterFrom rt (rangeFrom s)
       (searchLogs (logSearchTerm s) (filterByAction (filterAction s) (logs s)))) \<and>
   prefix (displayedLogs rt s) (filteredLogs rt s) \<and>
   subseq (displayedLogs rt s) (logs s) \<and>
   (0 \<le> displayedCount s \<longrightarrow>
      displayedLogs rt s =
        take (nat (min (displayedCount s) (int (length (filteredLogs rt s))))) (filteredLogs rt s)) \<and>
   displayedLogs rt (auditRun rt evs (mountAuditLogsPage m st)) =
     take (nat (min (displayedCount (auditRun rt evs (mountAuditLogsPage m st)))
                    (int (length (filteredLogs rt (auditRun rt evs (mountAuditLogsPage m st)))))))
       (filteredLogs rt (auditRun rt evs (mountAuditLogsPage m st)))"
proof -
  have p: "prefix (displayedLogs rt s) (filteredLogs rt s)"
    by (simp add: displayedLogs_def slice_zero_prefix)
  have "subseq (filteredLogs rt s) (logs s)"
    by (simp add: filteredLogs_filter)
  with p have sub: "subseq (displayedLogs rt s) (logs s)"
    by (meson prefix_imp_subseq subseq_order.order_trans)
  have "0 \<le> displayedCount (auditRun rt evs (mountAuditLogsPage m st))"
    using count_reachable [of rt evs m st] by simp
  then have run: "displayedLogs rt (auditRun rt evs (mountAuditLogsPage m st)) =
     take (nat (min (displayedCount (auditRun rt evs (mountAuditLogsPage m st)))
                    (int (length (filteredLogs rt (auditRun rt evs (mountAuditLogsPage m st)))))))
       (filteredLogs rt (auditRun rt evs (mountAuditLogsPage m st)))"
    by (rule displayedLogs_take)
  show ?thesis
    using p sub run filteredLogs_filter [of rt s] displayedLogs_take [of s rt]
    by (simp add: filteredLogs_def)
qed

theorem audit_logs_window_witness:
  "displayedLogs logsRuntime (loadedLogs\<lparr>displayedCount := 20\<rparr>) = take 20 manyLogs \<and>
   displayedLogs logsRuntime
     (auditRun logsRuntime revealEvents (mountAuditLogsPage Map.empty Map.empty)) = map bLog [0..<10]"
proof -
  let ?m = "mountAuditLogsPage Map.empty Map.empty :: audit_page"
  let ?s = "auditRun logsRuntime revealEvents ?m"
  let ?t = "loadedLogs\<lparr>displayedCount := 20\<rparr>"
  note a = audit_logs_window_is_prefix_in_dataset_order [of logsRuntime ?t revealEvents Map.empty Map.empty]
  have run: "displayedCount ?s = 20"
    by (simp add: reveal_run)
  have fl: "filteredLogs logsRuntime ?s = map bLog [0..<10]"
    unfolding reveal_run by (rule filteredLogs_ssh) (simp_all add: loadedLogs_fields)
  have ft: "filteredLogs logsRuntime loadedLogs = manyLogs"
    by (rule filteredLogs_all) (simp_all add: loadedLogs_fields)
  have "0 \<le> displayedCount ?t" by simp
  with a have "displayedLogs logsRuntime ?t =
      take (nat (min (displayedCount ?t) (int (length (filteredLogs logsRuntime ?t))))) (filteredLogs logsRuntime ?t)"
    by blast
  then have one: "displayedLogs logsRuntime ?t = take 20 manyLogs"
    by (simp add: ft length_manyLogs)
  from a have "displayedLogs logsRuntime ?s =
     take (nat (min (displayedCount ?s) (int (length (filteredLogs logsRuntime ?s))))) (filteredLogs logsRuntime ?s)"
    by blast
  then have two: "displayedLogs logsRuntime ?s = map bLog [0..<10]"
    by (simp add: run fl)
  show ?thesis using one two by blast
qed

end
